theory Spec2Isabelle
  imports Complex_Main "HOL-Library.Word" "HOL-Library.Signed_Division" "HOL-Library.Log_Nat"
begin

unbundle bit_operations_syntax

section \<open>Machine integers used by the autoscheduler\<close>

text \<open>
  The fields of \<open>OptionalRational\<close> are \<open>int32_t\<close>; they are 32-bit words here, read as
  two's complement by \<open>sint\<close>. The \<open>int64_t\<close> temporaries of the source are integers
  passed through \<open>i64\<close>, which wraps to 64 bits in two's complement (what the compiled
  code does where the C++ standard leaves signed overflow undefined). Storing an
  \<open>int64_t\<close> into an \<open>int32_t\<close> field keeps the low 32 bits: \<open>word_of_int\<close>.
  The C++ operator \<open>/\<close> truncates towards zero: \<open>sdiv\<close>.
\<close>

definition i64 :: "int \<Rightarrow> int" where
  "i64 k = signed_take_bit 63 k"

text \<open>
  Modelled from the spec: the helpers \<open>gcd\<close> and \<open>lcm\<close> (declared outside the files at
  hand, both \<open>int64_t \<times> int64_t \<rightarrow> int64_t\<close>). The specification names them only as the
  greatest common divisor and the least common multiple, so they are the mathematical
  functions on the signed values, stored in an \<open>int64_t\<close>.
\<close>

definition gcd_i64 :: "int \<Rightarrow> int \<Rightarrow> int" where
  "gcd_i64 a b = i64 (gcd a b)"

definition lcm_i64 :: "int \<Rightarrow> int \<Rightarrow> int" where
  "lcm_i64 a b = i64 (lcm a b)"

section \<open>OptionalRational (FunctionDAG.h)\<close>

record OptionalRational =
  numerator :: "32 word"
  denominator :: "32 word"

definition exists :: "OptionalRational \<Rightarrow> bool" where
  "exists a = (denominator a \<noteq> 0)"

text \<open>The constructor \<open>OptionalRational(int64_t n, int64_t d)\<close>: both arguments are
  narrowed to the 32-bit fields.\<close>

definition OptionalRational_of :: "int \<Rightarrow> int \<Rightarrow> OptionalRational" where
  "OptionalRational_of n d = \<lparr>numerator = word_of_int n, denominator = word_of_int d\<rparr>"

text \<open>\<open>operator+=\<close>. The first test is the bitwise AND of the two denominators.\<close>

definition rat_plus_eq :: "OptionalRational \<Rightarrow> OptionalRational \<Rightarrow> OptionalRational" where
  "rat_plus_eq a other =
     (if (denominator a AND denominator other) = 0
      then a\<lparr>numerator := 0, denominator := 0\<rparr>
      else if denominator a = denominator other
      then a\<lparr>numerator := numerator a + numerator other\<rparr>
      else
        let l = lcm_i64 (sint (denominator a)) (sint (denominator other));
            num1 = (word_of_int (i64 (sint (numerator a) * (l sdiv sint (denominator a)))) :: 32 word);
            den1 = (word_of_int l :: 32 word);
            num2 = (word_of_int
                     (i64 (sint num1 + i64 (sint (numerator other) * (l sdiv sint (denominator other)))))
                    :: 32 word);
            g = gcd_i64 (sint num2) (sint den1)
        in \<lparr>numerator = word_of_int (sint num2 sdiv g),
            denominator = word_of_int (sint den1 sdiv g)\<rparr>)"

text \<open>\<open>operator==(int x)\<close>: the product \<open>x * denominator\<close> is an \<open>int\<close> product.\<close>

definition rat_eq_int :: "OptionalRational \<Rightarrow> 32 word \<Rightarrow> bool" where
  "rat_eq_int a x = (exists a \<and> numerator a = x * denominator a)"

text \<open>\<open>operator*(int64_t factor)\<close>.\<close>

definition rat_times_int :: "OptionalRational \<Rightarrow> 64 word \<Rightarrow> OptionalRational" where
  "rat_times_int a factor =
     (if rat_eq_int a 0 then a
      else let num = i64 (sint (numerator a) * sint factor)
           in OptionalRational_of num (sint (denominator a)))"

text \<open>\<open>operator*(const OptionalRational &)\<close>: both products are \<open>int32_t * int32_t\<close>,
  computed in \<open>int\<close> and then widened.\<close>

definition rat_times :: "OptionalRational \<Rightarrow> OptionalRational \<Rightarrow> OptionalRational" where
  "rat_times a other =
     (if rat_eq_int a 0 then a
      else if rat_eq_int other 0 then other
      else let num = sint (numerator a * numerator other);
               den = sint (denominator a * denominator other)
           in OptionalRational_of num den)"

text \<open>\<open>operator==(const OptionalRational &)\<close>.\<close>

definition rat_eq :: "OptionalRational \<Rightarrow> OptionalRational \<Rightarrow> bool" where
  "rat_eq a other =
     ((exists a = exists other) \<and>
      numerator a * denominator other = denominator a * numerator other)"

text \<open>The rational number an existing OptionalRational stands for (used to state the
  properties of the arithmetic; not part of the source).\<close>

definition rat_value :: "OptionalRational \<Rightarrow> rat" where
  "rat_value a = Fract (sint (numerator a)) (sint (denominator a))"

section \<open>Span (FunctionDAG.h)\<close>

record Span =
  span_min :: "64 word"
  span_max :: "64 word"
  span_constant_extent :: bool

text \<open>\<open>std::min\<close> and \<open>std::max\<close> on \<open>int64_t\<close>: signed comparison, the first argument
  is returned on a tie.\<close>

definition std_min :: "64 word \<Rightarrow> 64 word \<Rightarrow> 64 word" where
  "std_min a b = (if b <s a then b else a)"

definition std_max :: "64 word \<Rightarrow> 64 word \<Rightarrow> 64 word" where
  "std_max a b = (if a <s b then b else a)"

definition union_with :: "Span \<Rightarrow> Span \<Rightarrow> Span" where
  "union_with s other =
     s\<lparr>span_min := std_min (span_min s) (span_min other),
       span_max := std_max (span_max s) (span_max other),
       span_constant_extent := (span_constant_extent s \<and> span_constant_extent other)\<rparr>"

definition INT64_MAX :: "64 word" where
  "INT64_MAX = 0x7FFFFFFFFFFFFFFF"

definition INT64_MIN :: "64 word" where
  "INT64_MIN = 0x8000000000000000"

definition empty_span :: Span where
  "empty_span = \<lparr>span_min = INT64_MAX, span_max = INT64_MIN, span_constant_extent = True\<rparr>"

section \<open>Errors\<close>

text \<open>
  \<open>InternalError\<close> is a failed \<open>internal_assert\<close> or an \<open>internal_error\<close> (the process
  aborts with the message). \<open>OutOfRange\<close> is a read or write of a \<open>std::vector\<close> past its
  end (or \<open>map::at\<close> on a missing key), \<open>NullPointer\<close> a dereference of a null pointer and
  \<open>ConversionOverflow\<close> the conversion of an infinite \<open>double\<close> to \<open>size_t\<close>: C++ leaves
  them undefined (\<open>at\<close> throws), here they are results of their own so that no theorem can
  rest on them.
\<close>

datatype error = InternalError string | OutOfRange | NullPointer | ConversionOverflow

section \<open>LoadJacobian (FunctionDAG.h)\<close>

text \<open>
  The field \<open>c\<close> of the source is \<open>c_count\<close> here. The dimensions are \<open>size_t\<close>: natural
  numbers below \<open>2^64\<close>, with every \<open>size_t\<close> product and sum written modulo \<open>2^64\<close>. The
  two \<open>operator()\<close> take their indices as \<open>int\<close>, while the loops count in \<open>size_t\<close>:
  \<open>to_int\<close> is the conversion at the call (the low 32 bits, read as two's complement), and
  \<open>cell_index\<close> is \<open>producer_storage_dim * cols + consumer_loop_dim\<close>, where both \<open>int\<close>
  values are converted to \<open>size_t\<close> and the arithmetic is modulo \<open>2^64\<close>.
\<close>

definition to_int :: "nat \<Rightarrow> int" where
  "to_int n = signed_take_bit 31 (int n)"

definition cell_index :: "nat \<Rightarrow> int \<Rightarrow> int \<Rightarrow> nat" where
  "cell_index ncols producer_storage_dim consumer_loop_dim =
     nat ((producer_storage_dim * int ncols + consumer_loop_dim) mod 2 ^ 64)"

record LoadJacobian =
  coeffs :: "OptionalRational list"
  c_count :: "64 word"
  rows :: nat
  cols :: nat

text \<open>The constructor: \<open>coeffs.resize(rows * cols)\<close>, a \<open>size_t\<close> product, fills with
  default-constructed rationals, which are \<open>(0, 0)\<close>.\<close>

definition LoadJacobian_of :: "nat \<Rightarrow> nat \<Rightarrow> 64 word \<Rightarrow> LoadJacobian" where
  "LoadJacobian_of producer_storage_dims consumer_loop_dims count =
     \<lparr>coeffs = replicate ((producer_storage_dims * consumer_loop_dims) mod 2 ^ 64)
                 \<lparr>numerator = 0, denominator = 0\<rparr>,
      c_count = count,
      rows = producer_storage_dims,
      cols = consumer_loop_dims\<rparr>"

text \<open>The \<open>const\<close> \<open>operator()\<close>: a scalar producer or consumer has all strides zero.\<close>

definition lj_at :: "LoadJacobian \<Rightarrow> int \<Rightarrow> int \<Rightarrow> error + OptionalRational" where
  "lj_at m producer_storage_dim consumer_loop_dim =
     (if rows m = 0 \<or> cols m = 0 then Inr \<lparr>numerator = 0, denominator = 1\<rparr>
      else let k = cell_index (cols m) producer_storage_dim consumer_loop_dim
           in if k < length (coeffs m) then Inr (coeffs m ! k) else Inl OutOfRange)"

text \<open>The non-\<open>const\<close> \<open>operator()\<close> returns a reference into \<open>coeffs\<close>: \<open>lj_ref\<close> reads
  through it and \<open>lj_assign\<close> writes through it.\<close>

definition lj_ref :: "LoadJacobian \<Rightarrow> int \<Rightarrow> int \<Rightarrow> error + OptionalRational" where
  "lj_ref m producer_storage_dim consumer_loop_dim =
     (let k = cell_index (cols m) producer_storage_dim consumer_loop_dim
      in if k < length (coeffs m) then Inr (coeffs m ! k) else Inl OutOfRange)"

definition lj_assign ::
  "LoadJacobian \<Rightarrow> int \<Rightarrow> int \<Rightarrow> OptionalRational \<Rightarrow> error + LoadJacobian" where
  "lj_assign m producer_storage_dim consumer_loop_dim v =
     (let k = cell_index (cols m) producer_storage_dim consumer_loop_dim
      in if k < length (coeffs m) then Inr (m\<lparr>coeffs := (coeffs m)[k := v]\<rparr>)
         else Inl OutOfRange)"

text \<open>\<open>operator*(const LoadJacobian &other)\<close>. The innermost loop, over \<open>k\<close>:
  \<open>result(i, j) += (*this)(i, k) * other(k, j)\<close>.\<close>

fun times_k_loop ::
  "LoadJacobian \<Rightarrow> LoadJacobian \<Rightarrow> nat \<Rightarrow> nat \<Rightarrow> nat list \<Rightarrow> LoadJacobian \<Rightarrow> error + LoadJacobian"
where
  "times_k_loop a other i j [] result = Inr result"
| "times_k_loop a other i j (k # ks) result =
     (case lj_at a (to_int i) (to_int k) of
        Inl e \<Rightarrow> Inl e
      | Inr x \<Rightarrow>
          (case lj_at other (to_int k) (to_int j) of
             Inl e \<Rightarrow> Inl e
           | Inr y \<Rightarrow>
               (case lj_ref result (to_int i) (to_int j) of
                  Inl e \<Rightarrow> Inl e
                | Inr cur \<Rightarrow>
                    (case lj_assign result (to_int i) (to_int j) (rat_plus_eq cur (rat_times x y)) of
                       Inl e \<Rightarrow> Inl e
                     | Inr result' \<Rightarrow> times_k_loop a other i j ks result'))))"

text \<open>The loop over \<open>j\<close>: \<open>result(i, j) = OptionalRational{0, 1}\<close>, then the loop over
  \<open>k < consumer_loop_dims()\<close>.\<close>

fun times_j_loop ::
  "LoadJacobian \<Rightarrow> LoadJacobian \<Rightarrow> nat \<Rightarrow> nat list \<Rightarrow> LoadJacobian \<Rightarrow> error + LoadJacobian"
where
  "times_j_loop a other i [] result = Inr result"
| "times_j_loop a other i (j # js) result =
     (case lj_assign result (to_int i) (to_int j) (OptionalRational_of 0 1) of
        Inl e \<Rightarrow> Inl e
      | Inr result1 \<Rightarrow>
          (case times_k_loop a other i j [0..<cols a] result1 of
             Inl e \<Rightarrow> Inl e
           | Inr result2 \<Rightarrow> times_j_loop a other i js result2))"

fun times_i_loop ::
  "LoadJacobian \<Rightarrow> LoadJacobian \<Rightarrow> nat list \<Rightarrow> LoadJacobian \<Rightarrow> error + LoadJacobian"
where
  "times_i_loop a other [] result = Inr result"
| "times_i_loop a other (i # is) result =
     (case times_j_loop a other i [0..<cols other] result of
        Inl e \<Rightarrow> Inl e
      | Inr result' \<Rightarrow> times_i_loop a other is result')"

definition lj_times :: "LoadJacobian \<Rightarrow> LoadJacobian \<Rightarrow> error + LoadJacobian" where
  "lj_times a other =
     times_i_loop a other [0..<rows a]
       (LoadJacobian_of (rows a) (cols other) (c_count a * c_count other))"

text \<open>What the \<open>const\<close> \<open>operator()\<close> returns at row \<open>i\<close> and column \<open>k\<close> when the cell is
  inside the coefficient vector, and the dot product of row \<open>i\<close> of \<open>a\<close> with column \<open>j\<close> of
  \<open>other\<close> in the arithmetic of OptionalRational, accumulated from \<open>(0, 1)\<close> (both are used
  to state the result of the composition; they are not part of the source).\<close>

definition coeff_at :: "LoadJacobian \<Rightarrow> nat \<Rightarrow> nat \<Rightarrow> OptionalRational" where
  "coeff_at m i k =
     (if rows m = 0 \<or> cols m = 0 then \<lparr>numerator = 0, denominator = 1\<rparr>
      else coeffs m ! (i * cols m + k))"

definition dot_product :: "LoadJacobian \<Rightarrow> LoadJacobian \<Rightarrow> nat \<Rightarrow> nat \<Rightarrow> OptionalRational" where
  "dot_product a other i j =
     fold (\<lambda>k acc. rat_plus_eq acc (rat_times (coeff_at a i k) (coeff_at other k j)))
          [0..<cols a] \<lparr>numerator = 0, denominator = 1\<rparr>"

text \<open>A matrix whose dimensions are below \<open>2^31\<close> (so that they convert to \<open>int\<close> unchanged)
  and whose coefficient vector has the size they say.\<close>

definition well_formed :: "LoadJacobian \<Rightarrow> bool" where
  "well_formed m =
     (rows m < 2 ^ 31 \<and> cols m < 2 ^ 31 \<and> length (coeffs m) = rows m * cols m)"

section \<open>The function DAG as the search reads it (FunctionDAG.h)\<close>

text \<open>The counters and indices of the search (\<open>num_decisions_made\<close>, \<open>beam_size\<close>,
  \<open>pass_idx\<close>, \<open>num_passes\<close>, \<open>expanded\<close>, \<open>penalty\<close>, \<open>blessed\<close>, the counts in \<open>hashes\<close>) are
  \<open>int\<close> in the source: integers here, with every sum and product passed through \<open>i32\<close>,
  which wraps to 32 bits in two's complement. \<open>(int)\<close> applied to a \<open>size_t\<close> is \<open>to_int\<close>;
  \<open>size_t\<close> sums and products are written modulo \<open>2^64\<close>.\<close>

definition i32 :: "int \<Rightarrow> int" where
  "i32 k = signed_take_bit 31 k"

text \<open>Of a \<open>Node\<close> the search reads its \<open>id\<close> (here \<open>node_id\<close>), \<open>is_input\<close> and the number of
  its stages; of the DAG the vector \<open>nodes\<close> and \<open>stage_id_to_node_map\<close>, whose values
  point into \<open>nodes\<close> (here: positions in the vector).\<close>

record Node =
  node_id :: int
  is_input :: bool
  stages_size :: nat

record FunctionDAG =
  nodes :: "Node list"
  stage_id_to_node_map :: "int \<rightharpoonup> nat"

section \<open>States of the beam search (AutoSchedule.cpp)\<close>

text \<open>
  Modelled from the spec: \<open>LoopNest\<close> and \<open>State\<close> are declared in headers that are not at
  hand. A LoopNest is a tree with the node it computes (null at the root), the functions
  inlined into it and its children. A State owns a root LoopNest, an immutable parent
  State (null at the root of the search), a scalar cost, a per-stage cost vector, the
  counter \<open>num_decisions_made\<close> and the flag \<open>penalized\<close>. Nodes are referred to by their
  position in \<open>dag.nodes\<close>. Costs are \<open>double\<close> in the source and real numbers here
  (rounding, infinities and NaN are not modelled).
\<close>

datatype LoopNest = LoopNest (node: "nat option") (inlined: "nat list") (children: "LoopNest list")

datatype State =
  State (root: LoopNest) (parent: "State option") (cost: real) (cost_per_stage: "real list")
        (num_decisions_made: int) (penalized: bool)

text \<open>\<open>new State\<close> with \<open>root = new LoopNest\<close>: no decisions made.\<close>

definition initial_State :: State where
  "initial_State = State (LoopNest None [] []) None 0 [] 0 False"

text \<open>
  Modelled from the spec: \<open>StateQueue\<close>, a heap from which the state of lowest cost pops
  first (ties are not specified). It is a list kept in ascending order of cost:
  \<open>emplace\<close> inserts, \<open>top\<close> is the head, \<open>pop\<close> removes the head, \<open>resort\<close> sorts again,
  \<open>q[j]\<close> is the \<open>j\<close>-th element.
\<close>

definition sq_emplace :: "State \<Rightarrow> State list \<Rightarrow> State list" where
  "sq_emplace s qu = insort_key cost s qu"

definition sq_resort :: "State list \<Rightarrow> State list" where
  "sq_resort qu = sort_key cost qu"

text \<open>
  What the pass calls and the files at hand do not define, or define with floating-point
  and input/output (\<open>random_dropout\<close> draws from the generator and compares with a power
  computed in \<open>double\<close>): each is a function of a hidden state \<open>'w\<close> (the generator, the
  cost model, the memoized blocks, standard input), which it may change.
  \<open>generate_children\<close> returns the children in the order in which it passes them to the
  callback. \<open>evaluate_costs\<close> gives every enqueued state its cost and per-stage costs.
\<close>

record 'w externals =
  generate_children ::
    "'w \<Rightarrow> bool \<Rightarrow> (nat \<rightharpoonup> bool) \<Rightarrow> (nat \<rightharpoonup> LoopNest list) \<Rightarrow> State \<Rightarrow> State list \<times> 'w"
  structural_hash :: "State \<Rightarrow> int \<Rightarrow> 64 word"
  random_dropout :: "'w \<Rightarrow> nat \<Rightarrow> bool \<times> 'w"
  evaluate_costs :: "'w \<Rightarrow> (State \<Rightarrow> real \<times> real list) \<times> 'w"
  configure_pipeline_features :: "'w \<Rightarrow> 'w"
  read_selection :: "'w \<Rightarrow> int \<times> 'w"
  collect_nodes_that_should_be_inlined ::
    "LoopNest \<Rightarrow> nat list \<Rightarrow> (nat \<rightharpoonup> bool) \<Rightarrow> (nat \<rightharpoonup> bool)"
  get_env_variable :: "string \<Rightarrow> string"
  atoi :: "string \<Rightarrow> int"

text \<open>The arguments of \<open>optimal_schedule_pass\<close> that a pass only reads.\<close>

record pass_params =
  dag :: FunctionDAG
  has_cost_model :: bool
  pass_idx :: int
  num_passes :: int
  inlined_nodes :: "nat \<rightharpoonup> bool"
  compute_root_nodes :: "nat \<rightharpoonup> LoopNest list"

text \<open>The variables a pass changes: its two queues, \<open>expanded\<close> and the per-round map
  \<open>hashes\<close> (a missing key counts 0), and, by reference, \<open>permitted_hashes\<close>,
  \<open>stats.num_states_added\<close> and the hidden state.\<close>

record 'w pass_state =
  q :: "State list"
  pending :: "State list"
  expanded :: int
  hashes :: "64 word \<Rightarrow> int"
  permitted_hashes :: "64 word set"
  num_states_added :: int
  world :: 'w

text \<open>The callback \<open>enqueue_new_children\<close>. Its assertion reads the parent through the
  pointer; the progress bar is output only and is left out.\<close>

definition enqueue_new_children :: "State \<Rightarrow> 'w pass_state \<Rightarrow> error + 'w pass_state" where
  "enqueue_new_children s ps =
     (case parent s of
        None \<Rightarrow> Inl NullPointer
      | Some p \<Rightarrow>
          if num_decisions_made s = i32 (num_decisions_made p + 1)
          then Inr (ps\<lparr>num_states_added := i32 (num_states_added ps + 1),
                      q := sq_emplace (State (root s) (parent s) (cost s) (cost_per_stage s)
                                         (num_decisions_made s) False) (q ps)\<rparr>)
          else Inl (InternalError ''s->num_decisions_made == s->parent->num_decisions_made + 1''))"

text \<open>The calls of the callback that one \<open>generate_children\<close> makes, in order; the first
  failed assertion aborts.\<close>

fun enqueue_all :: "State list \<Rightarrow> 'w pass_state \<Rightarrow> error + 'w pass_state" where
  "enqueue_all [] ps = Inr ps"
| "enqueue_all (s # ss) ps =
     (case enqueue_new_children s ps of
        Inl e \<Rightarrow> Inl e
      | Inr ps' \<Rightarrow> enqueue_all ss ps')"

text \<open>
  The structural-hash penalization of a popped state (the block guarded by
  \<open>beam_size > 1 && num_passes > 1 && pass_idx >= 0\<close>). The result is the state, the
  variables of the pass and whether the state was deferred (pushed back on \<open>pending\<close>,
  followed by \<open>continue\<close>).
\<close>

definition penalize ::
  "'w externals \<Rightarrow> pass_params \<Rightarrow> int \<Rightarrow> State \<Rightarrow> 'w pass_state \<Rightarrow> State \<times> 'w pass_state \<times> bool"
where
  "penalize ext pp beam_size state ps =
     (if beam_size > 1 \<and> num_passes pp > 1 \<and> pass_idx pp \<ge> 0 then
        if \<not> penalized state then
          let h1 = structural_hash ext state (i32 (pass_idx pp + 1));
              h0 = structural_hash ext state (i32 (pass_idx pp - 1));
              penalty0 = i32 (hashes ps h1 + 1);
              ps1 = ps\<lparr>hashes := (hashes ps)(h1 := penalty0)\<rparr>;
              penalty = (if pass_idx pp > 0 \<and> h0 \<notin> permitted_hashes ps1
                         then i32 (penalty0 + 10) else penalty0)
          in if penalty > 1 then
               let state' = State (root state) (parent state) (cost state * of_int penalty)
                              (map (\<lambda>c. c * of_int penalty) (cost_per_stage state))
                              (num_decisions_made state) True
               in if pending ps1 \<noteq> [] \<and> cost state' > cost (hd (pending ps1))
                  then (state', ps1\<lparr>pending := sq_emplace state' (pending ps1)\<rparr>, True)
                  else (state', ps1, False)
             else (state, ps1, False)
        else (state, ps, False)
      else (state, ps, False))"

text \<open>The chain of a state and its ancestors, as the blessing walks it.\<close>

fun ancestors :: "State \<Rightarrow> State list" where
  "ancestors (State r p c cs n b) = State r p c cs n b # (case p of None \<Rightarrow> [] | Some s \<Rightarrow> ancestors s)"

text \<open>The blessing loop at the end of a pass: while the current state costs at most
  1.2 times the best and fewer than \<open>beam_size\<close> states were blessed, the hashes of its
  chain are permitted and the next state is popped.\<close>

fun bless ::
  "'w externals \<Rightarrow> pass_params \<Rightarrow> int \<Rightarrow> State \<Rightarrow> State \<Rightarrow> int \<Rightarrow> State list \<Rightarrow> 64 word set
     \<Rightarrow> State list \<times> 64 word set"
where
  "bless ext pp beam_size best state blessed pend permitted =
     (if cost state \<le> 1.2 * cost best \<and> blessed < beam_size then
        let permitted' = permitted \<union> (\<lambda>s. structural_hash ext s (pass_idx pp)) ` set (ancestors state)
        in (case pend of
              [] \<Rightarrow> (pend, permitted')
            | s # rest \<Rightarrow> bless ext pp beam_size best s (i32 (blessed + 1)) rest permitted')
      else (pend, permitted))"

datatype 'w round_result = Winner State "'w pass_state" | NextRound "'w pass_state"

text \<open>
  The inner loop \<open>while (expanded < beam_size && !pending.empty())\<close>. The first argument
  bounds the number of iterations: \<open>None\<close> is a loop that has not ended within the bound.
\<close>

fun expand_loop ::
  "nat \<Rightarrow> 'w externals \<Rightarrow> pass_params \<Rightarrow> int \<Rightarrow> 'w pass_state \<Rightarrow> (error + 'w round_result) option"
where
  "expand_loop 0 ext pp beam_size ps = None"
| "expand_loop (Suc n) ext pp beam_size ps =
     (if expanded ps < beam_size \<and> pending ps \<noteq> [] then
        (case penalize ext pp beam_size (hd (pending ps)) (ps\<lparr>pending := tl (pending ps)\<rparr>) of
           (state, ps1, True) \<Rightarrow> expand_loop n ext pp beam_size ps1
         | (state, ps1, False) \<Rightarrow>
             (case (if length (pending ps1) > 1
                    then random_dropout ext (world ps1) ((length (nodes (dag pp)) * 2) mod 2 ^ 64)
                    else (False, world ps1)) of
                (True, w) \<Rightarrow> expand_loop n ext pp beam_size (ps1\<lparr>world := w\<rparr>)
              | (False, w) \<Rightarrow>
                  if num_decisions_made state = i32 (2 * to_int (length (nodes (dag pp)))) then
                    (if pass_idx pp \<ge> 0 \<and> i32 (pass_idx pp + 1) < num_passes pp then
                       (case bless ext pp beam_size state state 0 (pending ps1) (permitted_hashes ps1) of
                          (pend, permitted) \<Rightarrow>
                            Some (Inr (Winner state
                              (ps1\<lparr>world := w, pending := pend, permitted_hashes := permitted\<rparr>))))
                     else Some (Inr (Winner state (ps1\<lparr>world := w\<rparr>))))
                  else
                    (case generate_children ext w (pass_idx pp = - 1) (inlined_nodes pp)
                            (compute_root_nodes pp) state of
                       (cs, w') \<Rightarrow>
                         (case enqueue_all cs (ps1\<lparr>world := w'\<rparr>) of
                            Inl e \<Rightarrow> Some (Inl e)
                          | Inr ps2 \<Rightarrow>
                              expand_loop n ext pp beam_size
                                (ps2\<lparr>expanded := i32 (expanded ps2 + 1)\<rparr>)))))
      else Some (Inr (NextRound ps)))"

text \<open>Interactive mode: \<open>std::cin >> selection\<close> until the selection is an index of \<open>q\<close>.\<close>

fun select_loop :: "nat \<Rightarrow> 'w externals \<Rightarrow> int \<Rightarrow> nat \<Rightarrow> 'w \<Rightarrow> (int \<times> 'w) option" where
  "select_loop 0 ext selection q_size w = None"
| "select_loop (Suc n) ext selection q_size w =
     (if selection < 0 \<or> selection \<ge> to_int q_size
      then (case read_selection ext w of (selection', w') \<Rightarrow> select_loop n ext selection' q_size w')
      else Some (selection, w))"

text \<open>The variables of a fresh call of \<open>optimal_schedule_pass\<close>: the cost model is
  configured when there is one, \<open>q\<close> holds the initial state.\<close>

definition enter_pass :: "'w externals \<Rightarrow> pass_params \<Rightarrow> 'w pass_state \<Rightarrow> 'w pass_state" where
  "enter_pass ext pp ps =
     ps\<lparr>q := sq_emplace initial_State [], pending := [], expanded := 0,
        world := (if has_cost_model pp then configure_pipeline_features ext (world ps)
                  else world ps)\<rparr>"

text \<open>
  The end of a round that returned no winner: the states left in \<open>pending\<close> are dropped,
  the cost model (when there is one) evaluates the costs of the states in \<open>q\<close> and \<open>q\<close> is
  sorted again; in interactive mode (\<open>HL_CYOS\<close> is \<open>1\<close>) \<open>q\<close> is replaced by the state
  the user selects. The logging of infinite costs is left out.
\<close>

definition end_round ::
  "nat \<Rightarrow> 'w externals \<Rightarrow> pass_params \<Rightarrow> 'w pass_state \<Rightarrow> (error + 'w pass_state) option"
where
  "end_round n ext pp ps1 =
     (let ps2 = ps1\<lparr>pending := []\<rparr>;
          ps3 = (if has_cost_model pp then
                   (case evaluate_costs ext (world ps2) of
                      (f, w) \<Rightarrow>
                        ps2\<lparr>world := w,
                            q := sq_resort
                              (map (\<lambda>s. State (root s) (parent s) (fst (f s)) (snd (f s))
                                           (num_decisions_made s) (penalized s)) (q ps2))\<rparr>)
                 else ps2)
      in if get_env_variable ext ''HL_CYOS'' = ''1'' then
           (if \<not> has_cost_model pp then Some (Inl NullPointer)
            else
              (case evaluate_costs ext (world ps3) of
                 (f, w) \<Rightarrow>
                   (case select_loop n ext (- 1) (length (q ps3)) w of
                      None \<Rightarrow> None
                    | Some (selection, w') \<Rightarrow>
                        Some (Inr (ps3\<lparr>world := w',
                          q := sq_emplace
                                 (map (\<lambda>s. State (root s) (parent s) (fst (f s)) (snd (f s))
                                              (num_decisions_made s) (penalized s)) (q ps3)
                                  ! nat selection) []\<rparr>)))))
         else Some (Inr ps3))"

text \<open>
  The loop \<open>for (int i = 0;; i++)\<close> of \<open>optimal_schedule_pass\<close>, one round of the beam
  search per iteration. The branch that restarts the pass with twice the beam size is
  kept with its guard \<open>(false) && beam_size < 1000\<close>, whose literal is the constant
  \<open>total_mortality_restarts\<close>. The message of the \<open>internal_error\<close> is followed
  by the beam size in the source.
\<close>

definition total_mortality_restarts :: bool where
  "total_mortality_restarts = False"

fun pass_loop ::
  "nat \<Rightarrow> 'w externals \<Rightarrow> pass_params \<Rightarrow> int \<Rightarrow> 'w pass_state \<Rightarrow> (error + State \<times> 'w pass_state) option"
where
  "pass_loop 0 ext pp beam_size ps = None"
| "pass_loop (Suc n) ext pp beam_size ps =
     (if q ps = [] then
        (if total_mortality_restarts \<and> beam_size < 1000
         then pass_loop n ext pp (i32 (beam_size * 2))
                (enter_pass ext pp (ps\<lparr>hashes := (\<lambda>h. 0), q := pending ps, pending := q ps\<rparr>))
         else Some (Inl (InternalError ''Ran out of legal states with beam size'')))
      else
        (case expand_loop n ext pp beam_size
                (ps\<lparr>hashes := (\<lambda>h. 0), q := pending ps, pending := q ps, expanded := 0\<rparr>) of
           None \<Rightarrow> None
         | Some (Inl e) \<Rightarrow> Some (Inl e)
         | Some (Inr (Winner best ps1)) \<Rightarrow> Some (Inr (best, ps1))
         | Some (Inr (NextRound ps1)) \<Rightarrow>
             (case end_round n ext pp ps1 of
                None \<Rightarrow> None
              | Some (Inl e) \<Rightarrow> Some (Inl e)
              | Some (Inr ps3) \<Rightarrow> pass_loop n ext pp beam_size ps3)))"

definition optimal_schedule_pass ::
  "nat \<Rightarrow> 'w externals \<Rightarrow> pass_params \<Rightarrow> int \<Rightarrow> 'w pass_state \<Rightarrow> (error + State \<times> 'w pass_state) option"
where
  "optimal_schedule_pass fuel ext pp beam_size ps = pass_loop fuel ext pp beam_size (enter_pass ext pp ps)"

section \<open>Freezing the lowest-cost stages (AutoSchedule.cpp)\<close>

text \<open>The first loop of \<open>freeze_lowest_cost_stages\<close>: the number of stages and the number
  of nodes, inputs left out.\<close>

fun count_stages_and_nodes :: "Node list \<Rightarrow> nat \<times> nat \<Rightarrow> nat \<times> nat" where
  "count_stages_and_nodes [] (num_stages, num_nodes) = (num_stages, num_nodes)"
| "count_stages_and_nodes (n # ns) (num_stages, num_nodes) =
     (if is_input n then count_stages_and_nodes ns (num_stages, num_nodes)
      else count_stages_and_nodes ns
             ((num_stages + stages_size n) mod 2 ^ 64, (num_nodes + 1) mod 2 ^ 64))"

text \<open>\<open>node_costs\<close> is a NodeMap from nodes to \<open>double\<close>: an association list from the
  position of the node to its cost, in the order in which the nodes were first met.
  \<open>get_or_create(n) = 0\<close> followed by \<open>get(n) += c\<close>:\<close>

fun add_node_cost :: "nat \<Rightarrow> real \<Rightarrow> (nat \<times> real) list \<Rightarrow> (nat \<times> real) list" where
  "add_node_cost k c [] = [(k, 0 + c)]"
| "add_node_cost k c ((k', c') # rest) =
     (if k' = k then (k', c' + c) # rest else (k', c') # add_node_cost k c rest)"

text \<open>The second loop, over the stage ids below \<open>num_stages\<close>. The keys of
  \<open>stage_id_to_node_map\<close> are \<open>int\<close>; \<open>map::at\<close> throws on a missing key;
  \<open>cost_per_stage[i]\<close> is an unchecked read.\<close>

fun sum_stage_costs ::
  "FunctionDAG \<Rightarrow> State \<Rightarrow> nat list \<Rightarrow> (nat \<times> real) list \<Rightarrow> error + (nat \<times> real) list"
where
  "sum_stage_costs d best [] node_costs = Inr node_costs"
| "sum_stage_costs d best (i # is) node_costs =
     (case stage_id_to_node_map d (to_int i) of
        None \<Rightarrow> Inl OutOfRange
      | Some k \<Rightarrow>
          if k \<ge> length (nodes d) then Inl OutOfRange
          else if is_input (nodes d ! k) then sum_stage_costs d best is node_costs
          else if i \<ge> length (cost_per_stage best) then Inl OutOfRange
          else sum_stage_costs d best is (add_node_cost k (cost_per_stage best ! i) node_costs))"

text \<open>
  \<open>size_t num_to_freeze = num_nodes - std::log2(num_nodes)\<close>: the difference is computed
  in \<open>double\<close> (here: in the real numbers) and truncated by the conversion to \<open>size_t\<close>.
  For \<open>num_nodes = 0\<close> the logarithm is minus infinity, the difference is infinite and
  its conversion is undefined.
\<close>

definition num_to_freeze_of :: "nat \<Rightarrow> error + nat" where
  "num_to_freeze_of num_nodes =
     (if num_nodes = 0 then Inl ConversionOverflow
      else Inr (nat \<lfloor>real num_nodes - log 2 (real num_nodes)\<rfloor>))"

text \<open>The loop that fills \<open>nodes_to_freeze\<close> from the first \<open>num_to_freeze\<close> entries of the
  sorted vector: \<open>node_ids_and_costs[i]\<close> and \<open>dag.nodes[id]\<close> are unchecked reads.\<close>

fun collect_nodes_to_freeze ::
  "FunctionDAG \<Rightarrow> (int \<times> real) list \<Rightarrow> nat list \<Rightarrow> nat list \<Rightarrow> error + nat list"
where
  "collect_nodes_to_freeze d node_ids_and_costs [] nodes_to_freeze = Inr nodes_to_freeze"
| "collect_nodes_to_freeze d node_ids_and_costs (i # is) nodes_to_freeze =
     (if i \<ge> length node_ids_and_costs then Inl OutOfRange
      else let ident = fst (node_ids_and_costs ! i)
           in if ident < 0 \<or> nat ident \<ge> length (nodes d) then Inl OutOfRange
              else collect_nodes_to_freeze d node_ids_and_costs is (nodes_to_freeze @ [nat ident]))"

text \<open>
  Modelled from the spec: \<open>deep_copy_loop_nest\<close> with the \<open>ClearInlinedMutator\<close>, which
  the files at hand only call: a copy of the loop nest in which \<open>inlined\<close> is cleared
  at every level.
\<close>

fun deep_copy_loop_nest :: "LoopNest \<Rightarrow> LoopNest" where
  "deep_copy_loop_nest (LoopNest n inl cs) = LoopNest n [] (map deep_copy_loop_nest cs)"

text \<open>The last loop: every child of the root whose node is to be frozen is copied into
  \<open>compute_root_nodes\<close>.\<close>

fun freeze_compute_root ::
  "nat list \<Rightarrow> LoopNest list \<Rightarrow> (nat \<rightharpoonup> LoopNest list) \<Rightarrow> error + (nat \<rightharpoonup> LoopNest list)"
where
  "freeze_compute_root nodes_to_freeze [] crn = Inr crn"
| "freeze_compute_root nodes_to_freeze (c # cs) crn =
     (case node c of
        None \<Rightarrow> Inl NullPointer
      | Some k \<Rightarrow>
          if k \<in> set nodes_to_freeze
          then freeze_compute_root nodes_to_freeze cs
                 (crn(k \<mapsto> (case crn k of None \<Rightarrow> [] | Some v \<Rightarrow> v) @ [deep_copy_loop_nest c]))
          else freeze_compute_root nodes_to_freeze cs crn)"

text \<open>The sorted vector of node ids and summed costs, cheapest first (\<open>std::sort\<close> does
  not fix the order of equal costs; the sort here is stable).\<close>

definition sorted_node_ids_and_costs :: "FunctionDAG \<Rightarrow> State \<Rightarrow> error + (int \<times> real) list" where
  "sorted_node_ids_and_costs d best =
     (case count_stages_and_nodes (nodes d) (0, 0) of
        (num_stages, num_nodes) \<Rightarrow>
          (case sum_stage_costs d best [0..<num_stages] [] of
             Inl e \<Rightarrow> Inl e
           | Inr node_costs \<Rightarrow>
               let node_ids_and_costs = map (\<lambda>(k, c). (node_id (nodes d ! k), c)) node_costs
               in if list_ex (\<lambda>n. \<not> fst n \<ge> 0) node_ids_and_costs
                  then Inl (InternalError ''n.first >= 0'')
                  else Inr (sort_key snd node_ids_and_costs)))"

definition nodes_to_freeze_of :: "FunctionDAG \<Rightarrow> State \<Rightarrow> error + nat list" where
  "nodes_to_freeze_of d best =
     (case sorted_node_ids_and_costs d best of
        Inl e \<Rightarrow> Inl e
      | Inr node_ids_and_costs \<Rightarrow>
          (case num_to_freeze_of (snd (count_stages_and_nodes (nodes d) (0, 0))) of
             Inl e \<Rightarrow> Inl e
           | Inr num_to_freeze \<Rightarrow>
               collect_nodes_to_freeze d node_ids_and_costs [0..<num_to_freeze] []))"

definition freeze_lowest_cost_stages ::
  "'w externals \<Rightarrow> FunctionDAG \<Rightarrow> State \<Rightarrow> (nat \<rightharpoonup> bool) \<Rightarrow> (nat \<rightharpoonup> LoopNest list)
     \<Rightarrow> error + (nat \<rightharpoonup> bool) \<times> (nat \<rightharpoonup> LoopNest list)"
where
  "freeze_lowest_cost_stages ext d best inl crn =
     (case nodes_to_freeze_of d best of
        Inl e \<Rightarrow> Inl e
      | Inr nodes_to_freeze \<Rightarrow>
          (case freeze_compute_root nodes_to_freeze (children (root best)) crn of
             Inl e \<Rightarrow> Inl e
           | Inr crn' \<Rightarrow>
               Inr (collect_nodes_that_should_be_inlined ext (root best) nodes_to_freeze inl, crn')))"

section \<open>The coarse-to-fine driver (AutoSchedule.cpp)\<close>

text \<open>The update of \<open>best\<close> after a pass:
  \<open>if (pass_idx >= 0 && (pass_idx == 0 || pass->cost < best->cost)) best = pass\<close>.\<close>

definition track_best :: "int \<Rightarrow> State \<Rightarrow> State option \<Rightarrow> error + State option" where
  "track_best i pass best =
     (if i \<ge> 0 then
        (if i = 0 then Inr (Some pass)
         else (case best of
                 None \<Rightarrow> Inl NullPointer
               | Some b \<Rightarrow> if cost pass < cost b then Inr (Some pass) else Inr best))
      else Inr best)"

text \<open>The loop \<open>for (; pass_idx < num_passes; pass_idx++)\<close> over the list of its
  indices.\<close>

fun passes_loop ::
  "nat \<Rightarrow> 'w externals \<Rightarrow> pass_params \<Rightarrow> int \<Rightarrow> int list \<Rightarrow> State option \<Rightarrow> 'w pass_state
     \<Rightarrow> (error + State option \<times> 'w pass_state) option"
where
  "passes_loop fuel ext pp beam_size [] best ps = Some (Inr (best, ps))"
| "passes_loop fuel ext pp beam_size (i # is) best ps =
     (case optimal_schedule_pass fuel ext (pp\<lparr>pass_idx := i\<rparr>) beam_size ps of
        None \<Rightarrow> None
      | Some (Inl e) \<Rightarrow> Some (Inl e)
      | Some (Inr (pass, ps1)) \<Rightarrow>
          (case (if i = - 1
                 then freeze_lowest_cost_stages ext (dag pp) pass (inlined_nodes pp)
                        (compute_root_nodes pp)
                 else Inr (inlined_nodes pp, compute_root_nodes pp)) of
             Inl e \<Rightarrow> Some (Inl e)
           | Inr (inl, crn) \<Rightarrow>
               (case track_best i pass best of
                  Inl e \<Rightarrow> Some (Inl e)
                | Inr best' \<Rightarrow>
                    passes_loop fuel ext (pp\<lparr>inlined_nodes := inl, compute_root_nodes := crn\<rparr>)
                      beam_size is best' ps1)))"

text \<open>The number of passes and the first pass index, from \<open>beam_size\<close> and the
  environment.\<close>

definition pass_range :: "'w externals \<Rightarrow> int \<Rightarrow> int \<times> int" where
  "pass_range ext beam_size =
     (let num_passes0 = (if beam_size = 1 then 1 else 5);
          num_passes1 = (if get_env_variable ext ''HL_CYOS'' = ''1'' then 1 else num_passes0);
          num_passes2 = (if get_env_variable ext ''HL_NUM_PASSES'' \<noteq> []
                         then i32 (atoi ext (get_env_variable ext ''HL_NUM_PASSES''))
                         else num_passes1);
          use_pre_pass = (get_env_variable ext ''HL_FREEZE_INLINE_COMPUTE_ROOT'' = ''1'');
          first_pass = (if use_pre_pass then - 1 else 0);
          num_passes3 = (if use_pre_pass \<and> num_passes2 > 1 then i32 (num_passes2 - 1)
                         else num_passes2)
      in (first_pass, num_passes3))"

definition optimal_schedule ::
  "nat \<Rightarrow> 'w externals \<Rightarrow> FunctionDAG \<Rightarrow> bool \<Rightarrow> int \<Rightarrow> 'w pass_state
     \<Rightarrow> (error + State \<times> 'w pass_state) option"
where
  "optimal_schedule fuel ext d cost_model beam_size ps =
     (case pass_range ext beam_size of
        (first_pass, n_passes) \<Rightarrow>
          (case passes_loop fuel ext
                  \<lparr>dag = d, has_cost_model = cost_model, pass_idx = first_pass,
                   num_passes = n_passes, inlined_nodes = Map.empty,
                   compute_root_nodes = Map.empty\<rparr>
                  beam_size [first_pass..n_passes - 1] None (ps\<lparr>permitted_hashes := {}\<rparr>) of
             None \<Rightarrow> None
           | Some (Inl e) \<Rightarrow> Some (Inl e)
           | Some (Inr (None, ps')) \<Rightarrow> Some (Inl NullPointer)
           | Some (Inr (Some best, ps')) \<Rightarrow> Some (Inr (best, ps'))))"

text \<open>The winners of the passes, in the order in which \<open>optimal_schedule\<close> runs them, each
  with its pass index (used to state which state \<open>optimal_schedule\<close> returns; not part of
  the source).\<close>

fun pass_winners ::
  "nat \<Rightarrow> 'w externals \<Rightarrow> pass_params \<Rightarrow> int \<Rightarrow> int list \<Rightarrow> 'w pass_state \<Rightarrow> (int \<times> State) list"
where
  "pass_winners fuel ext pp beam_size [] ps = []"
| "pass_winners fuel ext pp beam_size (i # is) ps =
     (case optimal_schedule_pass fuel ext (pp\<lparr>pass_idx := i\<rparr>) beam_size ps of
        Some (Inr (pass, ps1)) \<Rightarrow>
          (case (if i = - 1
                 then freeze_lowest_cost_stages ext (dag pp) pass (inlined_nodes pp)
                        (compute_root_nodes pp)
                 else Inr (inlined_nodes pp, compute_root_nodes pp)) of
             Inr (inl, crn) \<Rightarrow>
               (i, pass) #
               pass_winners fuel ext (pp\<lparr>inlined_nodes := inl, compute_root_nodes := crn\<rparr>)
                 beam_size is ps1
           | Inl e \<Rightarrow> [(i, pass)])
      | _ \<Rightarrow> [])"

section \<open>Reference definitions and sample inputs\<close>

text \<open>The sum of the costs of the stages \<open>stage_ids\<close> that belong to the node at position
  \<open>k\<close>, and the cost an association list gives a node (used to state what
  \<open>freeze_lowest_cost_stages\<close> sorts by; not part of the source).\<close>

definition stage_cost_sum :: "FunctionDAG \<Rightarrow> State \<Rightarrow> nat list \<Rightarrow> nat \<Rightarrow> real" where
  "stage_cost_sum d best stage_ids k =
     sum_list (map (\<lambda>i. if stage_id_to_node_map d (to_int i) = Some k
                         then cost_per_stage best ! i else 0) stage_ids)"

definition cost_in :: "(nat \<times> real) list \<Rightarrow> nat \<Rightarrow> real" where
  "cost_in node_costs k = (case map_of node_costs k of None \<Rightarrow> 0 | Some c \<Rightarrow> c)"

text \<open>The running best of \<open>optimal_schedule\<close> after the passes \<open>rs\<close> (pass index and
  winner), and the winners of the passes with an index of at least 0, in the order in
  which they ran (used to state which state \<open>optimal_schedule\<close> returns; not part of the
  source).\<close>

fun follow_best :: "(int \<times> State) list \<Rightarrow> State option \<Rightarrow> State option" where
  "follow_best [] best = best"
| "follow_best ((i, pass) # rs) best =
     follow_best rs
       (if 0 \<le> i \<and> (i = 0 \<or> (case best of None \<Rightarrow> False | Some b \<Rightarrow> cost pass < cost b))
        then Some pass else best)"

definition winners_of_passes ::
  "nat \<Rightarrow> 'w externals \<Rightarrow> FunctionDAG \<Rightarrow> bool \<Rightarrow> int \<Rightarrow> 'w pass_state \<Rightarrow> State list"
where
  "winners_of_passes fuel ext d cost_model beam_size ps =
     (case pass_range ext beam_size of
        (first_pass, n_passes) \<Rightarrow>
          map snd (filter (\<lambda>r. 0 \<le> fst r)
            (pass_winners fuel ext
               \<lparr>dag = d, has_cost_model = cost_model, pass_idx = first_pass,
                num_passes = n_passes, inlined_nodes = Map.empty,
                compute_root_nodes = Map.empty\<rparr>
               beam_size [first_pass..n_passes - 1] (ps\<lparr>permitted_hashes := {}\<rparr>))))"

text \<open>
  A sample environment: every state has one child, with one more decision made, whose
  cost is 10 plus the number of children generated so far; no state is dropped; all
  structural hashes are equal; the cost model leaves the costs as they are; two passes
  are requested through \<open>HL_NUM_PASSES\<close>. The hidden state is the number of children
  generated. \<open>barren_ext\<close> is the same environment with no child for any state.
\<close>

definition demo_ext :: "nat externals" where
  "demo_ext =
     \<lparr>generate_children = (\<lambda>w pre inl crn s.
         ([State (root s) (Some s) (10 + real w) [10 + real w] (num_decisions_made s + 1) False],
          Suc w)),
      structural_hash = (\<lambda>s i. 0),
      random_dropout = (\<lambda>w n. (False, w)),
      evaluate_costs = (\<lambda>w. (\<lambda>s. (cost s, cost_per_stage s), w)),
      configure_pipeline_features = (\<lambda>w. w),
      read_selection = (\<lambda>w. (0, w)),
      collect_nodes_that_should_be_inlined = (\<lambda>r ns inl. inl),
      get_env_variable = (\<lambda>v. if v = ''HL_NUM_PASSES'' then ''2'' else []),
      atoi = (\<lambda>s. 2)\<rparr>"

definition barren_ext :: "nat externals" where
  "barren_ext = demo_ext\<lparr>generate_children := (\<lambda>w pre inl crn s. ([], w))\<rparr>"

text \<open>A DAG of one node with one stage, the arguments of its first pass of two, and the
  variables of a pass before it starts.\<close>

definition demo_dag :: FunctionDAG where
  "demo_dag = \<lparr>nodes = [\<lparr>node_id = 0, is_input = False, stages_size = 1\<rparr>],
               stage_id_to_node_map = [0 \<mapsto> 0]\<rparr>"

definition demo_params :: pass_params where
  "demo_params = \<lparr>dag = demo_dag, has_cost_model = True, pass_idx = 0, num_passes = 2,
                  inlined_nodes = Map.empty, compute_root_nodes = Map.empty\<rparr>"

definition demo_state :: "nat pass_state" where
  "demo_state = \<lparr>q = [], pending = [], expanded = 0, hashes = (\<lambda>h. 0), permitted_hashes = {},
                 num_states_added = 0, world = 0\<rparr>"

text \<open>A child of the initial state, a child of that child (terminal for \<open>demo_dag\<close>), and
  the first child after a penalty of 2.\<close>

definition demo_child :: State where
  "demo_child = State (LoopNest None [] []) (Some initial_State) 10 [10] 1 False"

definition demo_terminal :: State where
  "demo_terminal = State (LoopNest None [] []) (Some demo_child) 11 [11] 2 False"

definition demo_penalized :: State where
  "demo_penalized = State (LoopNest None [] []) (Some initial_State) 20 [20] 1 True"

text \<open>DAGs of three and of four nodes with one stage each, and a winner whose per-stage
  costs are 5, 1, 3 and 2.\<close>

definition demo_dag3 :: FunctionDAG where
  "demo_dag3 =
     \<lparr>nodes = [\<lparr>node_id = 0, is_input = False, stages_size = 1\<rparr>,
               \<lparr>node_id = 1, is_input = False, stages_size = 1\<rparr>,
               \<lparr>node_id = 2, is_input = False, stages_size = 1\<rparr>],
      stage_id_to_node_map = [0 \<mapsto> 0, 1 \<mapsto> 1, 2 \<mapsto> 2]\<rparr>"

definition demo_dag4 :: FunctionDAG where
  "demo_dag4 =
     \<lparr>nodes = [\<lparr>node_id = 0, is_input = False, stages_size = 1\<rparr>,
               \<lparr>node_id = 1, is_input = False, stages_size = 1\<rparr>,
               \<lparr>node_id = 2, is_input = False, stages_size = 1\<rparr>,
               \<lparr>node_id = 3, is_input = False, stages_size = 1\<rparr>],
      stage_id_to_node_map = [0 \<mapsto> 0, 1 \<mapsto> 1, 2 \<mapsto> 2, 3 \<mapsto> 3]\<rparr>"

definition demo_winner :: State where
  "demo_winner = State (LoopNest None [] []) None 11 [5, 1, 3, 2] 8 False"

section \<open>Properties of OptionalRational\<close>

lemma i64_id: "- (2 ^ 63) \<le> k \<Longrightarrow> k < 2 ^ 63 \<Longrightarrow> i64 k = k"
  by (simp add: i64_def signed_take_bit_int_eq_self)

lemma word32_of_i64: "(word_of_int (i64 k) :: 32 word) = word_of_int k"
  by (simp add: i64_def word_of_int_eq_iff take_bit_signed_take_bit)

lemma sdiv_exact:
  fixes a b :: int
  assumes "b dvd a"
  shows "a sdiv b = a div b"
proof (cases "b = 0")
  case True
  then show ?thesis by (simp add: signed_divide_int_def)
next
  case False
  from assms obtain c where a: "a = b * c" ..
  have "\<bar>a\<bar> div \<bar>b\<bar> = \<bar>c\<bar>"
    using False by (simp add: a abs_mult)
  then have "a sdiv b = (sgn b * sgn b) * (sgn c * \<bar>c\<bar>)"
    by (simp add: signed_divide_int_def a sgn_mult)
  also have "sgn b * sgn b = 1"
    using False by (simp add: sgn_if)
  finally show ?thesis
    using False by (simp add: a mult_sgn_abs)
qed

lemma sint32_of_int_id:
  "- (2 ^ 31) \<le> k \<Longrightarrow> k < 2 ^ 31 \<Longrightarrow> sint (word_of_int k :: 32 word) = k"
  by (simp add: sint_sbintrunc' signed_take_bit_int_eq_self)

lemma sint32_eq_0: "sint (w :: 32 word) = 0 \<longleftrightarrow> w = 0"
  by (metis signed_eq_0_iff)

lemma int_div_range:
  fixes N g lo hi :: int
  assumes "0 \<le> g" "lo \<le> 0" "0 < hi" "lo \<le> N" "N < hi"
  shows "lo \<le> N div g \<and> N div g < hi"
proof (cases "g = 0")
  case True
  with assms show ?thesis by simp
next
  case False
  with assms have g: "0 < g" by simp
  show ?thesis
  proof (cases "0 \<le> N")
    case True
    have "N div g \<le> N" using True g
      by (metis div_by_1 zdiv_mono2 zero_less_one int_one_le_iff_zero_less)
    moreover have "0 \<le> N div g" using True g by (simp add: pos_imp_zdiv_nonneg_iff)
    ultimately show ?thesis using assms by linarith
  next
    case False
    then have n: "N < 0" by simp
    have "N div 1 \<le> N div g" using n g by (intro zdiv_mono2_neg) simp_all
    moreover have "N div g < 0" using n g by (simp add: pos_imp_zdiv_neg_iff)
    ultimately show ?thesis using assms by simp
  qed
qed

lemma and32_nonzero: "(x :: 32 word) AND y \<noteq> 0 \<Longrightarrow> x \<noteq> 0 \<and> y \<noteq> 0"
  by auto

lemma sint32_bounds: "- (2 ^ 31) \<le> sint (w :: 32 word) \<and> sint w < 2 ^ 31"
  using sint_ge [of w] sint_lt [of w] by simp

lemma rat_plus_eq_general:
  fixes a b :: OptionalRational
  defines "n1 \<equiv> sint (numerator a)" and "d1 \<equiv> sint (denominator a)"
    and "n2 \<equiv> sint (numerator b)" and "d2 \<equiv> sint (denominator b)"
  defines "L \<equiv> lcm d1 d2"
  defines "N \<equiv> n1 * (L div d1) + n2 * (L div d2)"
  assumes nz: "(denominator a AND denominator b) \<noteq> 0"
    and ne: "denominator a \<noteq> denominator b"
    and L: "L < 2 ^ 31"
    and N: "- (2 ^ 31) \<le> N" "N < 2 ^ 31"
  shows "sint (numerator (rat_plus_eq a b)) = N div gcd N L"
    and "sint (denominator (rat_plus_eq a b)) = L div gcd N L"
proof -
  have d1: "d1 \<noteq> 0" and d2: "d2 \<noteq> 0"
    using and32_nonzero [OF nz] by (simp_all add: d1_def d2_def sint32_eq_0)
  have L0: "0 < L" using d1 d2 by (simp add: L_def lcm_pos_int)
  have l: "lcm_i64 d1 d2 = L"
  proof -
    have "- (2 ^ 63) \<le> L" "L < 2 ^ 63" using L0 L by simp_all
    then show ?thesis unfolding lcm_i64_def L_def [symmetric] by (rule i64_id)
  qed
  have q1: "L sdiv d1 = L div d1" by (rule sdiv_exact) (simp add: L_def)
  have q2: "L sdiv d2 = L div d2" by (rule sdiv_exact) (simp add: L_def)
  define num1 :: "32 word" where "num1 = word_of_int (i64 (n1 * (L div d1)))"
  define num2 :: "32 word" where
    "num2 = word_of_int (i64 (sint num1 + i64 (n2 * (L div d2))))"
  have num2: "num2 = word_of_int N"
    by (simp add: num2_def num1_def word32_of_i64 N_def wi_hom_syms)
  have sn2: "sint num2 = N" unfolding num2 using N by (rule sint32_of_int_id)
  have sden: "sint (word_of_int L :: 32 word) = L"
    using L0 L by (intro sint32_of_int_id) simp_all
  have g0: "0 < gcd N L" using L0 by (simp add: gcd_pos_int)
  have gle: "gcd N L \<le> L" using L0 by (rule gcd_le2_int)
  have g: "gcd_i64 N L = gcd N L"
  proof -
    have "(- (2 ^ 63) :: int) \<le> 0" by simp
    also have "0 \<le> gcd N L" by simp
    finally have "- (2 ^ 63) \<le> gcd N L" .
    moreover have "gcd N L < 2 ^ 63" using gle L by simp
    ultimately show ?thesis unfolding gcd_i64_def by (rule i64_id)
  qed
  have r: "rat_plus_eq a b =
      \<lparr>numerator = word_of_int (N sdiv gcd N L), denominator = word_of_int (L sdiv gcd N L)\<rparr>"
    using nz ne
    by (simp add: rat_plus_eq_def Let_def n1_def [symmetric] d1_def [symmetric]
        n2_def [symmetric] d2_def [symmetric] l q1 q2 num1_def [symmetric] num2_def [symmetric]
        sn2 sden g)
  have e1: "N sdiv gcd N L = N div gcd N L" by (rule sdiv_exact) simp
  have e2: "L sdiv gcd N L = L div gcd N L" by (rule sdiv_exact) simp
  have r1: "- (2 ^ 31) \<le> N div gcd N L \<and> N div gcd N L < 2 ^ 31"
    using N by (intro int_div_range) simp_all
  have r2: "- (2 ^ 31) \<le> L div gcd N L \<and> L div gcd N L < 2 ^ 31"
    using L L0 by (intro int_div_range) simp_all
  show "sint (numerator (rat_plus_eq a b)) = N div gcd N L"
    using r1 by (simp add: r e1 sint32_of_int_id)
  show "sint (denominator (rat_plus_eq a b)) = L div gcd N L"
    using r2 by (simp add: r e2 sint32_of_int_id)
qed

lemma rat_plus_eq_undefined:
  "denominator a = 0 \<or> denominator b = 0 \<Longrightarrow>
   rat_plus_eq a b = \<lparr>numerator = 0, denominator = 0\<rparr>"
  by (auto simp: rat_plus_eq_def)

lemma rat_plus_eq_same_denominator:
  "(denominator a AND denominator b) \<noteq> 0 \<Longrightarrow> denominator a = denominator b \<Longrightarrow>
   rat_plus_eq a b = \<lparr>numerator = numerator a + numerator b, denominator = denominator a\<rparr>"
  by (simp add: rat_plus_eq_def)

lemma Fract_add_same_denominator:
  assumes "d \<noteq> 0"
  shows "Fract n1 d + Fract n2 d = Fract (n1 + n2) d"
proof -
  have "Fract n1 d + Fract n2 d = Fract (d * (n1 + n2)) (d * d)"
    using assms by (simp add: add_rat algebra_simps)
  also have "\<dots> = Fract (n1 + n2) d"
    using assms by (rule mult_rat_cancel)
  finally show ?thesis .
qed

lemma rat_value_same_denominator:
  assumes "denominator a \<noteq> 0" "denominator a = denominator b"
    and "- (2 ^ 31) \<le> sint (numerator a) + sint (numerator b)"
    and "sint (numerator a) + sint (numerator b) < 2 ^ 31"
  shows "rat_value \<lparr>numerator = numerator a + numerator b, denominator = denominator a\<rparr>
       = rat_value a + rat_value b"
proof -
  have d: "sint (denominator a) \<noteq> 0" using assms(1) by (simp add: sint32_eq_0)
  have "numerator a + numerator b = word_of_int (sint (numerator a) + sint (numerator b))"
    by (simp add: wi_hom_syms)
  then have "sint (numerator a + numerator b) = sint (numerator a) + sint (numerator b)"
    using assms(3,4) by (simp only: sint32_of_int_id)
  then show ?thesis
    using Fract_add_same_denominator [OF d, of "sint (numerator a)" "sint (numerator b)"] assms(2)
    by (simp only: rat_value_def OptionalRational.simps)
qed


lemma Fract_add_lcm:
  fixes n1 d1 n2 d2 :: int
  assumes "d1 \<noteq> 0" "d2 \<noteq> 0"
  shows "Fract (n1 * (lcm d1 d2 div d1) + n2 * (lcm d1 d2 div d2)) (lcm d1 d2)
       = Fract n1 d1 + Fract n2 d2"
proof -
  define L where "L = lcm d1 d2"
  define q1 where "q1 = L div d1"
  define q2 where "q2 = L div d2"
  have L: "L \<noteq> 0" using assms by (simp add: L_def)
  have m1: "q1 * d1 = L" by (simp add: q1_def L_def)
  have m2: "q2 * d2 = L" by (simp add: q2_def L_def)
  have "(n1 * q1 + n2 * q2) * (d1 * d2) = n1 * d2 * (q1 * d1) + n2 * d1 * (q2 * d2)"
    by (simp add: algebra_simps)
  also have "\<dots> = (n1 * d2 + n2 * d1) * L"
    unfolding m1 m2 by (simp add: algebra_simps)
  finally have "Fract (n1 * q1 + n2 * q2) L = Fract (n1 * d2 + n2 * d1) (d1 * d2)"
    using L assms by (simp add: eq_rat)
  also have "\<dots> = Fract n1 d1 + Fract n2 d2"
    using assms by (simp add: add_rat)
  finally show ?thesis by (simp add: q1_def q2_def L_def)
qed

lemma rat_times_int_fields:
  "rat_times_int a f =
     \<lparr>numerator = word_of_int (sint (numerator a) * sint f), denominator = denominator a\<rparr>"
  by (cases a) (simp add: rat_times_int_def rat_eq_int_def OptionalRational_of_def word32_of_i64)

lemma rat_times_fields:
  "\<not> rat_eq_int a 0 \<Longrightarrow> \<not> rat_eq_int b 0 \<Longrightarrow>
   rat_times a b =
     \<lparr>numerator = word_of_int (sint (numerator a) * sint (numerator b)),
      denominator = word_of_int (sint (denominator a) * sint (denominator b))\<rparr>"
  by (simp add: rat_times_def OptionalRational_of_def wi_hom_syms)

lemma rat_plus_eq_same_denominator_int:
  "(denominator a AND denominator b) \<noteq> 0 \<Longrightarrow> denominator a = denominator b \<Longrightarrow>
   rat_plus_eq a b =
     \<lparr>numerator = word_of_int (sint (numerator a) + sint (numerator b)),
      denominator = denominator a\<rparr>"
  by (simp add: rat_plus_eq_def wi_hom_syms)


lemma rat_plus_eq_equal_denominators:
  "denominator a \<noteq> 0 \<Longrightarrow> denominator a = denominator b \<Longrightarrow>
   rat_plus_eq a b =
     \<lparr>numerator = word_of_int (sint (numerator a) + sint (numerator b)),
      denominator = denominator a\<rparr>"
  by (rule rat_plus_eq_same_denominator_int) simp_all

text \<open>
  C1 (as amended). Let \<open>a = (n1, d1)\<close> and \<open>b = (n2, d2)\<close>. Whenever at least one
  denominator is 0, \<open>a += b\<close> is the undefined value \<open>(0, 0)\<close>. When the two denominators
  have a common set bit (the test of the source; it implies that both are nonzero):
  if \<open>d1 = d2\<close> the result is \<open>(n1 + n2, d1)\<close>, not reduced, and it stands for
  \<open>n1/d1 + n2/d2\<close> when the sum fits in 32 bits; if \<open>d1 \<noteq> d2\<close> and both
  \<open>L = lcm d1 d2\<close> and \<open>N = n1 * (L / d1) + n2 * (L / d2)\<close> fit in 32 bits, the result is
  \<open>(N / g, L / g)\<close> with \<open>g = gcd N L\<close>: the exact rational \<open>n1/d1 + n2/d2\<close> in lowest
  terms. Nothing is stated for two nonzero denominators without a common set bit.
\<close>

theorem rat_plus_eq_amended:
  fixes a b :: OptionalRational
  defines "n1 \<equiv> sint (numerator a)" and "d1 \<equiv> sint (denominator a)"
    and "n2 \<equiv> sint (numerator b)" and "d2 \<equiv> sint (denominator b)"
  defines "L \<equiv> lcm d1 d2"
  defines "N \<equiv> n1 * (L div d1) + n2 * (L div d2)"
  defines "r \<equiv> rat_plus_eq a b"
  shows
    "(denominator a = 0 \<or> denominator b = 0 \<longrightarrow> r = \<lparr>numerator = 0, denominator = 0\<rparr>) \<and>
     ((denominator a AND denominator b) \<noteq> 0 \<and> denominator a = denominator b \<longrightarrow>
        r = \<lparr>numerator = numerator a + numerator b, denominator = denominator a\<rparr> \<and>
        (- (2 ^ 31) \<le> n1 + n2 \<and> n1 + n2 < 2 ^ 31 \<longrightarrow>
           sint (numerator r) = n1 + n2 \<and> rat_value r = rat_value a + rat_value b)) \<and>
     ((denominator a AND denominator b) \<noteq> 0 \<and> denominator a \<noteq> denominator b \<and>
      L < 2 ^ 31 \<and> - (2 ^ 31) \<le> N \<and> N < 2 ^ 31 \<longrightarrow>
        sint (numerator r) = N div gcd N L \<and>
        sint (denominator r) = L div gcd N L \<and>
        coprime (sint (numerator r)) (sint (denominator r)) \<and>
        rat_value r = rat_value a + rat_value b)"
proof (intro conjI impI)
  assume "denominator a = 0 \<or> denominator b = 0"
  then show "r = \<lparr>numerator = 0, denominator = 0\<rparr>"
    unfolding r_def by (rule rat_plus_eq_undefined)
next
  assume h: "(denominator a AND denominator b) \<noteq> 0 \<and> denominator a = denominator b"
  then show r: "r = \<lparr>numerator = numerator a + numerator b, denominator = denominator a\<rparr>"
    unfolding r_def using rat_plus_eq_same_denominator [of a b] by blast
  assume rng: "- (2 ^ 31) \<le> n1 + n2 \<and> n1 + n2 < 2 ^ 31"
  have "numerator a + numerator b = word_of_int (n1 + n2)"
    by (simp add: n1_def n2_def wi_hom_syms)
  moreover have "sint (word_of_int (n1 + n2) :: 32 word) = n1 + n2"
    using rng by (intro sint32_of_int_id) simp_all
  ultimately show "sint (numerator r) = n1 + n2"
    by (simp only: r OptionalRational.simps)
  have "denominator a \<noteq> 0" using h and32_nonzero by blast
  then show "rat_value r = rat_value a + rat_value b"
    unfolding r using h rng
    by (intro rat_value_same_denominator) (simp_all add: n1_def n2_def)
next
  assume h: "(denominator a AND denominator b) \<noteq> 0 \<and> denominator a \<noteq> denominator b \<and>
      L < 2 ^ 31 \<and> - (2 ^ 31) \<le> N \<and> N < 2 ^ 31"
  have d: "d1 \<noteq> 0" "d2 \<noteq> 0"
    using h and32_nonzero [of "denominator a" "denominator b"]
    by (simp_all add: d1_def d2_def sint32_eq_0)
  have L0: "L \<noteq> 0" using d by (simp add: L_def)
  show n: "sint (numerator r) = N div gcd N L"
    unfolding r_def N_def L_def n1_def d1_def n2_def d2_def
    using h unfolding N_def L_def n1_def d1_def n2_def d2_def
    by (intro rat_plus_eq_general(1)) simp_all
  show m: "sint (denominator r) = L div gcd N L"
    unfolding r_def N_def L_def n1_def d1_def n2_def d2_def
    using h unfolding N_def L_def n1_def d1_def n2_def d2_def
    by (intro rat_plus_eq_general(2)) simp_all
  show "coprime (sint (numerator r)) (sint (denominator r))"
    unfolding n m using L0 by (intro div_gcd_coprime) simp
  have "rat_value r = Fract N L"
    by (simp add: rat_value_def n m Fract_coprime)
  also have "\<dots> = Fract n1 d1 + Fract n2 d2"
    unfolding N_def L_def using d by (rule Fract_add_lcm)
  finally show "rat_value r = rat_value a + rat_value b"
    by (simp add: rat_value_def n1_def d1_def n2_def d2_def)
qed

text \<open>The three cases at concrete operands: \<open>1/0 + 1/2\<close>, \<open>1/2 + 1/2\<close> and
  \<open>1/3 + 1/6 = 1/2\<close>.\<close>

theorem rat_plus_eq_amended_witness:
  "rat_plus_eq \<lparr>numerator = 1, denominator = 0\<rparr> \<lparr>numerator = 1, denominator = 2\<rparr>
     = \<lparr>numerator = 0, denominator = 0\<rparr> \<and>
   rat_plus_eq \<lparr>numerator = 1, denominator = 2\<rparr> \<lparr>numerator = 1, denominator = 2\<rparr>
     = \<lparr>numerator = 2, denominator = 2\<rparr> \<and>
   sint (numerator (rat_plus_eq \<lparr>numerator = 1, denominator = 3\<rparr> \<lparr>numerator = 1, denominator = 6\<rparr>)) = 1 \<and>
   sint (denominator (rat_plus_eq \<lparr>numerator = 1, denominator = 3\<rparr> \<lparr>numerator = 1, denominator = 6\<rparr>)) = 2 \<and>
   rat_value (rat_plus_eq \<lparr>numerator = 1, denominator = 3\<rparr> \<lparr>numerator = 1, denominator = 6\<rparr>)
     = rat_value \<lparr>numerator = 1, denominator = 3\<rparr> + rat_value \<lparr>numerator = 1, denominator = 6\<rparr>"
  using rat_plus_eq_amended [of "\<lparr>numerator = 1, denominator = 0\<rparr>" "\<lparr>numerator = 1, denominator = 2\<rparr>"]
    rat_plus_eq_amended [of "\<lparr>numerator = 1, denominator = 2\<rparr>" "\<lparr>numerator = 1, denominator = 2\<rparr>"]
    rat_plus_eq_amended [of "\<lparr>numerator = 1, denominator = 3\<rparr>" "\<lparr>numerator = 1, denominator = 6\<rparr>"]
  by simp

text \<open>C1 as stated fails on the equal-denominator path: \<open>1/2 + 1/2\<close> is stored as
  \<open>(2, 2)\<close>, whose numerator and denominator have the common divisor 2.\<close>

theorem rat_plus_eq_counterexample:
  "denominator \<lparr>numerator = 1, denominator = 2\<rparr> \<noteq> 0 \<and>
   rat_plus_eq \<lparr>numerator = 1, denominator = 2\<rparr> \<lparr>numerator = 1, denominator = 2\<rparr>
     = \<lparr>numerator = 2, denominator = 2\<rparr> \<and>
   gcd (sint (numerator (rat_plus_eq \<lparr>numerator = 1, denominator = 2\<rparr> \<lparr>numerator = 1, denominator = 2\<rparr>)))
       (sint (denominator (rat_plus_eq \<lparr>numerator = 1, denominator = 2\<rparr> \<lparr>numerator = 1, denominator = 2\<rparr>))) = 2"
  by (simp add: rat_plus_eq_def)

text \<open>
  C2 (as amended). \<open>a == b\<close> is true exactly when either both sides exist and the 32-bit
  cross products \<open>a.numerator * b.denominator\<close> and \<open>a.denominator * b.numerator\<close> are
  equal, or neither side exists. So it is false whenever exactly one side does not
  exist, and true whenever neither side exists. When both sides exist and the cross
  products fit in 32 bits, \<open>a == b\<close> holds exactly when the integer cross products are
  equal.
\<close>

theorem rat_eq_amended:
  "(rat_eq a b \<longleftrightarrow>
      (exists a \<and> exists b \<and> numerator a * denominator b = denominator a * numerator b) \<or>
      (\<not> exists a \<and> \<not> exists b)) \<and>
   (exists a \<noteq> exists b \<longrightarrow> \<not> rat_eq a b) \<and>
   (\<not> exists a \<and> \<not> exists b \<longrightarrow> rat_eq a b) \<and>
   (exists a \<and> exists b \<and>
    - (2 ^ 31) \<le> sint (numerator a) * sint (denominator b) \<and>
    sint (numerator a) * sint (denominator b) < 2 ^ 31 \<and>
    - (2 ^ 31) \<le> sint (denominator a) * sint (numerator b) \<and>
    sint (denominator a) * sint (numerator b) < 2 ^ 31 \<longrightarrow>
      (rat_eq a b \<longleftrightarrow>
         sint (numerator a) * sint (denominator b) = sint (denominator a) * sint (numerator b)))"
proof (intro conjI impI)
  show "rat_eq a b \<longleftrightarrow>
      (exists a \<and> exists b \<and> numerator a * denominator b = denominator a * numerator b) \<or>
      (\<not> exists a \<and> \<not> exists b)"
    by (auto simp: rat_eq_def exists_def)
  show "\<not> rat_eq a b" if "exists a \<noteq> exists b"
    using that by (simp add: rat_eq_def)
  show "rat_eq a b" if "\<not> exists a \<and> \<not> exists b"
    using that by (simp add: rat_eq_def exists_def)
  assume h: "exists a \<and> exists b \<and>
    - (2 ^ 31) \<le> sint (numerator a) * sint (denominator b) \<and>
    sint (numerator a) * sint (denominator b) < 2 ^ 31 \<and>
    - (2 ^ 31) \<le> sint (denominator a) * sint (numerator b) \<and>
    sint (denominator a) * sint (numerator b) < 2 ^ 31"
  have p1: "numerator a * denominator b = word_of_int (sint (numerator a) * sint (denominator b))"
    by (simp add: wi_hom_syms)
  have p2: "denominator a * numerator b = word_of_int (sint (denominator a) * sint (numerator b))"
    by (simp add: wi_hom_syms)
  have s1: "sint (numerator a * denominator b) = sint (numerator a) * sint (denominator b)"
    unfolding p1 using h by (intro sint32_of_int_id) simp_all
  have s2: "sint (denominator a * numerator b) = sint (denominator a) * sint (numerator b)"
    unfolding p2 using h by (intro sint32_of_int_id) simp_all
  have "numerator a * denominator b = denominator a * numerator b \<longleftrightarrow>
        sint (numerator a * denominator b) = sint (denominator a * numerator b)"
    by (metis signed_word_eqI)
  then show "rat_eq a b \<longleftrightarrow>
         sint (numerator a) * sint (denominator b) = sint (denominator a) * sint (numerator b)"
    using h by (simp add: rat_eq_def s1 s2)
qed

text \<open>\<open>1/2 == 2/4\<close>; \<open>0/1 == (0, 0)\<close> is false; \<open>(5, 0) == (7, 0)\<close> is true.\<close>

theorem rat_eq_amended_witness:
  "rat_eq \<lparr>numerator = 1, denominator = 2\<rparr> \<lparr>numerator = 2, denominator = 4\<rparr> \<and>
   \<not> rat_eq \<lparr>numerator = 0, denominator = 1\<rparr> \<lparr>numerator = 0, denominator = 0\<rparr> \<and>
   rat_eq \<lparr>numerator = 5, denominator = 0\<rparr> \<lparr>numerator = 7, denominator = 0\<rparr>"
  using rat_eq_amended [of "\<lparr>numerator = 1, denominator = 2\<rparr>" "\<lparr>numerator = 2, denominator = 4\<rparr>"]
    rat_eq_amended [of "\<lparr>numerator = 0, denominator = 1\<rparr>" "\<lparr>numerator = 0, denominator = 0\<rparr>"]
    rat_eq_amended [of "\<lparr>numerator = 5, denominator = 0\<rparr>" "\<lparr>numerator = 7, denominator = 0\<rparr>"]
  by (simp add: exists_def)

text \<open>C2 as stated fails when neither side exists: \<open>(0, 0) == (0, 0)\<close> is true.\<close>

theorem rat_eq_counterexample:
  "rat_eq \<lparr>numerator = 0, denominator = 0\<rparr> \<lparr>numerator = 0, denominator = 0\<rparr> \<and>
   \<not> exists \<lparr>numerator = 0, denominator = 0\<rparr>"
  by (simp add: rat_eq_def exists_def)

text \<open>
  C3 (as amended). No arithmetic operation of OptionalRational checks for overflow or has
  an error result: each returns a value whose fields hold the low 32 bits of what was
  computed.
  (i) \<open>a * factor\<close>, for every \<open>a = (n1, d1)\<close> and every \<open>int64_t\<close> factor, returns \<open>n1 * factor\<close>
  modulo \<open>2^32\<close> over \<open>d1\<close>; when \<open>n1 * factor\<close> fits in the signed 32-bit range the stored
  numerator is exactly \<open>n1 * factor\<close>.
  (ii) \<open>a * b\<close>, when neither operand compares equal to zero, returns \<open>n1 * n2\<close> and
  \<open>d1 * d2\<close>, both modulo \<open>2^32\<close>; when both products fit in the signed 32-bit range the
  stored fields are exactly these products.
  (iii) \<open>a += b\<close> with equal denominators that are not zero returns \<open>n1 + n2\<close> modulo
  \<open>2^32\<close> over \<open>d1\<close>; when \<open>n1 + n2\<close> fits in the signed 32-bit range the stored numerator
  is exactly \<open>n1 + n2\<close>.
  (iv) \<open>a += b\<close> with different denominators that have a common set bit
  (\<open>d1 & d2 \<noteq> 0\<close>): when \<open>L = lcm d1 d2\<close> and \<open>N = n1 * (L / d1) + n2 * (L / d2)\<close> fit in the
  signed 32-bit range, the stored fields are exactly \<open>N / gcd N L\<close> and \<open>L / gcd N L\<close>.
  Nothing is stated for \<open>+=\<close> on denominators without a common set bit.
\<close>

theorem rat_arithmetic_amended:
  fixes a b :: OptionalRational and f :: "64 word"
  defines "n1 \<equiv> sint (numerator a)" and "d1 \<equiv> sint (denominator a)"
    and "n2 \<equiv> sint (numerator b)" and "d2 \<equiv> sint (denominator b)"
  defines "L \<equiv> lcm d1 d2"
  defines "N \<equiv> n1 * (L div d1) + n2 * (L div d2)"
  shows
    "rat_times_int a f = \<lparr>numerator = word_of_int (n1 * sint f), denominator = denominator a\<rparr> \<and>
     (- (2 ^ 31) \<le> n1 * sint f \<and> n1 * sint f < 2 ^ 31 \<longrightarrow>
        sint (numerator (rat_times_int a f)) = n1 * sint f) \<and>
     (\<not> rat_eq_int a 0 \<and> \<not> rat_eq_int b 0 \<longrightarrow>
        rat_times a b = \<lparr>numerator = word_of_int (n1 * n2), denominator = word_of_int (d1 * d2)\<rparr>) \<and>
     (\<not> rat_eq_int a 0 \<and> \<not> rat_eq_int b 0 \<and>
      - (2 ^ 31) \<le> n1 * n2 \<and> n1 * n2 < 2 ^ 31 \<and> - (2 ^ 31) \<le> d1 * d2 \<and> d1 * d2 < 2 ^ 31 \<longrightarrow>
        sint (numerator (rat_times a b)) = n1 * n2 \<and>
        sint (denominator (rat_times a b)) = d1 * d2) \<and>
     (denominator a \<noteq> 0 \<and> denominator a = denominator b \<longrightarrow>
        rat_plus_eq a b = \<lparr>numerator = word_of_int (n1 + n2), denominator = denominator a\<rparr>) \<and>
     (denominator a \<noteq> 0 \<and> denominator a = denominator b \<and>
      - (2 ^ 31) \<le> n1 + n2 \<and> n1 + n2 < 2 ^ 31 \<longrightarrow>
        sint (numerator (rat_plus_eq a b)) = n1 + n2) \<and>
     ((denominator a AND denominator b) \<noteq> 0 \<and> denominator a \<noteq> denominator b \<and>
      L < 2 ^ 31 \<and> - (2 ^ 31) \<le> N \<and> N < 2 ^ 31 \<longrightarrow>
        sint (numerator (rat_plus_eq a b)) = N div gcd N L \<and>
        sint (denominator (rat_plus_eq a b)) = L div gcd N L)"
proof (intro conjI impI)
  show t: "rat_times_int a f = \<lparr>numerator = word_of_int (n1 * sint f), denominator = denominator a\<rparr>"
    unfolding n1_def by (rule rat_times_int_fields)
  show "sint (numerator (rat_times_int a f)) = n1 * sint f"
    if "- (2 ^ 31) \<le> n1 * sint f \<and> n1 * sint f < 2 ^ 31"
  proof -
    have "sint (word_of_int (n1 * sint f) :: 32 word) = n1 * sint f"
      using that by (intro sint32_of_int_id) simp_all
    then show ?thesis by (simp only: t OptionalRational.simps)
  qed
  show m: "rat_times a b = \<lparr>numerator = word_of_int (n1 * n2), denominator = word_of_int (d1 * d2)\<rparr>"
    if "\<not> rat_eq_int a 0 \<and> \<not> rat_eq_int b 0"
    using that unfolding n1_def n2_def d1_def d2_def by (intro rat_times_fields) simp_all
  show s: "rat_plus_eq a b = \<lparr>numerator = word_of_int (n1 + n2), denominator = denominator a\<rparr>"
    if "denominator a \<noteq> 0 \<and> denominator a = denominator b"
    using that rat_plus_eq_equal_denominators [of a b] unfolding n1_def n2_def by blast
next
  assume h: "\<not> rat_eq_int a 0 \<and> \<not> rat_eq_int b 0 \<and>
      - (2 ^ 31) \<le> n1 * n2 \<and> n1 * n2 < 2 ^ 31 \<and> - (2 ^ 31) \<le> d1 * d2 \<and> d1 * d2 < 2 ^ 31"
  then have m: "rat_times a b =
      \<lparr>numerator = word_of_int (n1 * n2), denominator = word_of_int (d1 * d2)\<rparr>"
    unfolding n1_def n2_def d1_def d2_def by (intro rat_times_fields) simp_all
  have "sint (word_of_int (n1 * n2) :: 32 word) = n1 * n2"
    using h by (intro sint32_of_int_id) simp_all
  then show "sint (numerator (rat_times a b)) = n1 * n2"
    by (simp only: m OptionalRational.simps)
  have "sint (word_of_int (d1 * d2) :: 32 word) = d1 * d2"
    using h by (intro sint32_of_int_id) simp_all
  then show "sint (denominator (rat_times a b)) = d1 * d2"
    by (simp only: m OptionalRational.simps)
next
  assume h: "denominator a \<noteq> 0 \<and> denominator a = denominator b \<and>
      - (2 ^ 31) \<le> n1 + n2 \<and> n1 + n2 < 2 ^ 31"
  then have r: "rat_plus_eq a b = \<lparr>numerator = word_of_int (n1 + n2), denominator = denominator a\<rparr>"
    using rat_plus_eq_equal_denominators [of a b] unfolding n1_def n2_def by blast
  have "sint (word_of_int (n1 + n2) :: 32 word) = n1 + n2"
    using h by (intro sint32_of_int_id) simp_all
  then show "sint (numerator (rat_plus_eq a b)) = n1 + n2"
    by (simp only: r OptionalRational.simps)
next
  assume h: "(denominator a AND denominator b) \<noteq> 0 \<and> denominator a \<noteq> denominator b \<and>
      L < 2 ^ 31 \<and> - (2 ^ 31) \<le> N \<and> N < 2 ^ 31"
  show "sint (numerator (rat_plus_eq a b)) = N div gcd N L"
    unfolding N_def L_def n1_def d1_def n2_def d2_def
    using h unfolding N_def L_def n1_def d1_def n2_def d2_def
    by (intro rat_plus_eq_general(1)) simp_all
  show "sint (denominator (rat_plus_eq a b)) = L div gcd N L"
    unfolding N_def L_def n1_def d1_def n2_def d2_def
    using h unfolding N_def L_def n1_def d1_def n2_def d2_def
    by (intro rat_plus_eq_general(2)) simp_all
qed

text \<open>\<open>3/2 * 5\<close>, \<open>3/2 * (-5/7)\<close>, \<open>3/2 + 4/2\<close> and \<open>1/3 + 1/6\<close>.\<close>

theorem rat_arithmetic_amended_witness:
  "sint (numerator (rat_times_int \<lparr>numerator = 3, denominator = 2\<rparr> 5)) = 15 \<and>
   rat_times \<lparr>numerator = 3, denominator = 2\<rparr> \<lparr>numerator = -5, denominator = 7\<rparr>
     = \<lparr>numerator = -15, denominator = 14\<rparr> \<and>
   rat_plus_eq \<lparr>numerator = 3, denominator = 2\<rparr> \<lparr>numerator = 4, denominator = 2\<rparr>
     = \<lparr>numerator = 7, denominator = 2\<rparr> \<and>
   sint (numerator (rat_plus_eq \<lparr>numerator = 1, denominator = 3\<rparr> \<lparr>numerator = 1, denominator = 6\<rparr>)) = 1 \<and>
   sint (denominator (rat_plus_eq \<lparr>numerator = 1, denominator = 3\<rparr> \<lparr>numerator = 1, denominator = 6\<rparr>)) = 2"
  using rat_arithmetic_amended [of "\<lparr>numerator = 3, denominator = 2\<rparr>" 5 "\<lparr>numerator = -5, denominator = 7\<rparr>"]
    rat_arithmetic_amended [of "\<lparr>numerator = 3, denominator = 2\<rparr>" 5 "\<lparr>numerator = 4, denominator = 2\<rparr>"]
    rat_arithmetic_amended [of "\<lparr>numerator = 1, denominator = 3\<rparr>" 5 "\<lparr>numerator = 1, denominator = 6\<rparr>"]
  by (simp add: rat_eq_int_def exists_def)

text \<open>C3 as stated fails: multiplying \<open>1/1\<close> by the factor \<open>2^32\<close> has the exact numerator
  \<open>2^32\<close>, which the 64-bit temporary holds without overflow; the operation returns
  \<open>(0, 1)\<close>, the numerator silently narrowed to 32 bits.\<close>

theorem rat_arithmetic_counterexample:
  "sint (numerator \<lparr>numerator = 1, denominator = 1\<rparr>) * sint (4294967296 :: 64 word) = 4294967296 \<and>
   i64 4294967296 = 4294967296 \<and>
   rat_times_int \<lparr>numerator = 1, denominator = 1\<rparr> 4294967296 = \<lparr>numerator = 0, denominator = 1\<rparr>"
  by (simp add: rat_times_int_def rat_eq_int_def exists_def OptionalRational_of_def i64_def)

section \<open>Properties of LoadJacobian\<close>

lemma to_int_small: "n < 2 ^ 31 \<Longrightarrow> to_int n = int n"
  unfolding to_int_def by (rule signed_take_bit_int_eq_self) simp_all

lemma cell_index_small:
  assumes "i < 2 ^ 31" "j < 2 ^ 31" "n < 2 ^ 31"
  shows "cell_index n (to_int i) (to_int j) = i * n + j"
proof -
  have "i * n \<le> 2 ^ 31 * 2 ^ 31" using assms(1,3) by (intro mult_mono) simp_all
  then have "i * n + j < 2 ^ 64" using assms(2) by simp
  then have "int (i * n + j) < 2 ^ 64" by (metis of_nat_less_iff of_nat_numeral of_nat_power)
  then have "int (i * n + j) mod 2 ^ 64 = int (i * n + j)" by simp
  then have "nat (int (i * n + j) mod 2 ^ 64) = i * n + j" by (simp only: nat_int)
  moreover have "to_int i * int n + to_int j = int (i * n + j)"
    using assms by (simp add: to_int_small)
  ultimately show ?thesis by (simp only: cell_index_def)
qed

lemma lj_at_error: "lj_at m p c = Inl e \<Longrightarrow> e = OutOfRange"
  by (auto simp: lj_at_def Let_def split: if_splits)

lemma lj_ref_error: "lj_ref m p c = Inl e \<Longrightarrow> e = OutOfRange"
  by (auto simp: lj_ref_def Let_def split: if_splits)

lemma lj_assign_error: "lj_assign m p c v = Inl e \<Longrightarrow> e = OutOfRange"
  by (auto simp: lj_assign_def Let_def split: if_splits)

lemma times_k_loop_error:
  "times_k_loop a other i j ks result = Inl e \<Longrightarrow> e = OutOfRange"
  by (induction ks arbitrary: result)
     (auto split: sum.splits dest: lj_at_error lj_ref_error lj_assign_error)

lemma times_j_loop_error:
  "times_j_loop a other i js result = Inl e \<Longrightarrow> e = OutOfRange"
  by (induction js arbitrary: result)
     (auto split: sum.splits dest: lj_assign_error times_k_loop_error)

lemma times_i_loop_error:
  "times_i_loop a other is result = Inl e \<Longrightarrow> e = OutOfRange"
  by (induction "is" arbitrary: result)
     (auto split: sum.splits dest: times_j_loop_error)

lemma lj_times_error: "lj_times a other = Inl e \<Longrightarrow> e = OutOfRange"
  unfolding lj_times_def by (rule times_i_loop_error)


lemma fold_update_length:
  "length (fold (\<lambda>j cs. cs[b + j := f j]) js cs) = length cs"
  by (induction js arbitrary: cs) simp_all

lemma fold_update_frame:
  "\<forall>j\<in>set js. idx \<noteq> b + j \<Longrightarrow> fold (\<lambda>j cs. cs[b + j := f j]) js cs ! idx = cs ! idx"
  by (induction js arbitrary: cs) simp_all

lemma fold_update_hit:
  "j \<in> set js \<Longrightarrow> b + j < length cs \<Longrightarrow> fold (\<lambda>j cs. cs[b + j := f j]) js cs ! (b + j) = f j"
proof (induction js arbitrary: cs)
  case Nil
  then show ?case by simp
next
  case (Cons j' js)
  show ?case
  proof (cases "j \<in> set js")
    case True
    then show ?thesis using Cons by simp
  next
    case False
    then have "j' = j" using Cons.prems by simp
    moreover have "\<forall>x\<in>set js. b + j \<noteq> b + x" using False by auto
    ultimately show ?thesis using Cons.prems by (simp add: fold_update_frame)
  qed
qed

lemma cell_index_bound:
  fixes i j R C :: nat
  assumes "i < R" "j < C"
  shows "i * C + j < R * C"
proof -
  have "i * C + j < i * C + C" using assms(2) by simp
  also have "\<dots> = (i + 1) * C" by simp
  also have "\<dots> \<le> R * C" using assms(1) by (intro mult_le_mono1) simp
  finally show ?thesis .
qed

lemma cell_index_unique:
  fixes i j i' j' C :: nat
  assumes "i * C + j = i' * C + j'" "j < C" "j' < C"
  shows "i = i' \<and> j = j'"
proof -
  have "(i * C + j) div C = i" "(i' * C + j') div C = i'" using assms(2,3) by simp_all
  then have "i = i'" using assms(1) by simp
  then show ?thesis using assms(1) by simp
qed

lemma rows_fold_length:
  "length (fold (\<lambda>i cs. fold (\<lambda>j cs. cs[i * C + j := f i j]) js cs) is cs) = length cs"
  by (induction "is" arbitrary: cs) (simp_all add: fold_update_length)

lemma rows_fold_frame:
  "\<forall>i'\<in>set is. \<forall>j'\<in>set js. idx \<noteq> i' * C + j' \<Longrightarrow>
   fold (\<lambda>i cs. fold (\<lambda>j cs. cs[i * C + j := f i j]) js cs) is cs ! idx = cs ! idx"
  by (induction "is" arbitrary: cs) (simp_all add: fold_update_frame)

lemma rows_fold_hit:
  assumes "i \<in> set is" "j \<in> set js" "\<forall>j'\<in>set js. j' < C" "i * C + j < length cs"
  shows "fold (\<lambda>i cs. fold (\<lambda>j cs. cs[i * C + j := f i j]) js cs) is cs ! (i * C + j) = f i j"
  using assms(1,4)
proof (induction "is" arbitrary: cs)
  case Nil
  then show ?case by simp
next
  case (Cons i0 "is")
  let ?cs1 = "fold (\<lambda>j cs. cs[i0 * C + j := f i0 j]) js cs"
  show ?case
  proof (cases "i \<in> set is")
    case True
    then show ?thesis using Cons.prems Cons.IH [of ?cs1] by (simp add: fold_update_length)
  next
    case False
    then have i0: "i0 = i" using Cons.prems(1) by simp
    have "\<forall>i'\<in>set is. \<forall>j'\<in>set js. i * C + j \<noteq> i' * C + j'"
      using False assms(2,3) cell_index_unique [of i C j] by blast
    then have "fold (\<lambda>i cs. fold (\<lambda>j cs. cs[i * C + j := f i j]) js cs) is ?cs1 ! (i * C + j)
        = ?cs1 ! (i * C + j)"
      by (rule rows_fold_frame)
    also have "\<dots> = f i j"
      unfolding i0 using assms(2) Cons.prems(2) by (rule fold_update_hit)
    finally show ?thesis by simp
  qed
qed

lemma rat_plus_eq_undefined_left:
  "rat_plus_eq \<lparr>numerator = 0, denominator = 0\<rparr> p = \<lparr>numerator = 0, denominator = 0\<rparr>"
  by (simp add: rat_plus_eq_def)

lemma fold_rat_plus_eq_undefined:
  "fold (\<lambda>k acc. rat_plus_eq acc (g k)) ks \<lparr>numerator = 0, denominator = 0\<rparr>
     = \<lparr>numerator = 0, denominator = 0\<rparr>"
  by (induction ks) (simp_all add: rat_plus_eq_undefined_left)

lemma rat_times_undefined:
  assumes "\<not> exists x \<or> \<not> exists y" "\<not> rat_eq_int x 0" "\<not> rat_eq_int y 0"
  shows "denominator (rat_times x y) = 0"
  using assms by (auto simp: rat_times_def OptionalRational_of_def exists_def)


lemma times_k_loop_fold:
  assumes "\<forall>k\<in>set ks. lj_at a (to_int i) (to_int k) = Inr (coeff_at a i k) \<and>
                      lj_at other (to_int k) (to_int j) = Inr (coeff_at other k j)"
    and "cell_index (cols result) (to_int i) (to_int j) = idx"
    and "idx < length (coeffs result)"
  shows "times_k_loop a other i j ks result =
     Inr (result\<lparr>coeffs := (coeffs result)[idx :=
        fold (\<lambda>k acc. rat_plus_eq acc (rat_times (coeff_at a i k) (coeff_at other k j)))
             ks (coeffs result ! idx)]\<rparr>)"
  using assms
proof (induction ks arbitrary: result)
  case Nil
  then show ?case by simp
next
  case (Cons k ks)
  let ?v = "rat_plus_eq (coeffs result ! idx) (rat_times (coeff_at a i k) (coeff_at other k j))"
  let ?r = "result\<lparr>coeffs := (coeffs result)[idx := ?v]\<rparr>"
  have step: "times_k_loop a other i j (k # ks) result = times_k_loop a other i j ks ?r"
    using Cons.prems by (simp add: lj_ref_def lj_assign_def Let_def)
  have "times_k_loop a other i j ks ?r =
     Inr (?r\<lparr>coeffs := (coeffs ?r)[idx :=
        fold (\<lambda>k acc. rat_plus_eq acc (rat_times (coeff_at a i k) (coeff_at other k j)))
             ks (coeffs ?r ! idx)]\<rparr>)"
    using Cons.prems by (intro Cons.IH) auto
  then show ?case
    unfolding step using Cons.prems(3) by simp
qed

lemma times_k_loop_append:
  "times_k_loop a other i j (ks @ ks') result =
     (case times_k_loop a other i j ks result of
        Inl e \<Rightarrow> Inl e
      | Inr r \<Rightarrow> times_k_loop a other i j ks' r)"
  by (induction ks arbitrary: result) (simp_all split: sum.splits)

lemma lj_at_in_range:
  assumes "well_formed m" "i < rows m" "k < cols m"
  shows "lj_at m (to_int i) (to_int k) = Inr (coeff_at m i k)"
proof -
  have b: "i < 2 ^ 31" "k < 2 ^ 31" "cols m < 2 ^ 31"
    using assms by (simp_all add: well_formed_def)
  have "i * cols m + k < length (coeffs m)"
    using assms cell_index_bound [of i "rows m" k "cols m"] by (simp add: well_formed_def)
  then show ?thesis
    using assms(2,3) by (simp add: lj_at_def coeff_at_def cell_index_small [OF b])
qed

lemma lj_at_scalar:
  "rows m = 0 \<or> cols m = 0 \<Longrightarrow> lj_at m p c = Inr (coeff_at m i k)"
  by (simp add: lj_at_def coeff_at_def)

lemma lj_at_past_the_end:
  assumes "well_formed m" "0 < rows m" "0 < cols m" "j < cols m"
  shows "lj_at m (to_int (rows m)) (to_int j) = Inl OutOfRange"
proof -
  have b: "rows m < 2 ^ 31" "j < 2 ^ 31" "cols m < 2 ^ 31"
    using assms by (simp_all add: well_formed_def)
  show ?thesis
    using assms by (simp add: lj_at_def cell_index_small [OF b] well_formed_def)
qed

lemma times_j_loop_fold:
  assumes "well_formed a" "well_formed other"
    and "rows other = 0 \<or> cols a \<le> rows other" "i < rows a"
    and "\<forall>j\<in>set js. j < cols other"
    and "cols result = cols other" "length (coeffs result) = rows a * cols other"
  shows "times_j_loop a other i js result =
     Inr (result\<lparr>coeffs :=
        fold (\<lambda>j cs. cs[i * cols other + j := dot_product a other i j]) js (coeffs result)\<rparr>)"
  using assms(5-)
proof (induction js arbitrary: result)
  case Nil
  then show ?case by simp
next
  case (Cons j js)
  have j: "j < cols other" using Cons.prems(1) by simp
  have b: "i < 2 ^ 31" "j < 2 ^ 31" "cols other < 2 ^ 31"
    using assms(1,2,4) j by (simp_all add: well_formed_def)
  have ci: "cell_index (cols result) (to_int i) (to_int j) = i * cols other + j"
    using cell_index_small [OF b] Cons.prems(2) by simp
  have idx: "i * cols other + j < length (coeffs result)"
    using cell_index_bound [OF assms(4) j] Cons.prems(3) by simp
  let ?r1 = "result\<lparr>coeffs := (coeffs result)[i * cols other + j := OptionalRational_of 0 1]\<rparr>"
  have a1: "lj_assign result (to_int i) (to_int j) (OptionalRational_of 0 1) = Inr ?r1"
    using idx ci by (simp add: lj_assign_def)
  have rng: "\<forall>k\<in>set [0..<cols a]. lj_at a (to_int i) (to_int k) = Inr (coeff_at a i k) \<and>
                      lj_at other (to_int k) (to_int j) = Inr (coeff_at other k j)"
  proof (intro ballI conjI)
    fix k assume "k \<in> set [0..<cols a]"
    then have k: "k < cols a" by simp
    show "lj_at a (to_int i) (to_int k) = Inr (coeff_at a i k)"
      using assms(1,4) k by (rule lj_at_in_range)
    show "lj_at other (to_int k) (to_int j) = Inr (coeff_at other k j)"
    proof (cases "rows other = 0")
      case True
      then show ?thesis by (simp add: lj_at_scalar)
    next
      case False
      then have "k < rows other" using assms(3) k by simp
      then show ?thesis using assms(2) j by (intro lj_at_in_range)
    qed
  qed
  have ci1: "cell_index (cols ?r1) (to_int i) (to_int j) = i * cols other + j" using ci by simp
  have idx1: "i * cols other + j < length (coeffs ?r1)" using idx by simp
  let ?r2 = "result\<lparr>coeffs := (coeffs result)[i * cols other + j := dot_product a other i j]\<rparr>"
  have k: "times_k_loop a other i j [0..<cols a] ?r1 = Inr ?r2"
    unfolding times_k_loop_fold [OF rng ci1 idx1]
    using idx by (simp add: dot_product_def OptionalRational_of_def)
  have "times_j_loop a other i (j # js) result = times_j_loop a other i js ?r2"
    by (simp add: a1 k)
  also have "\<dots> = Inr (?r2\<lparr>coeffs :=
        fold (\<lambda>j cs. cs[i * cols other + j := dot_product a other i j]) js (coeffs ?r2)\<rparr>)"
    using Cons.prems by (intro Cons.IH) simp_all
  finally show ?case by simp
qed

lemma times_i_loop_fold:
  assumes "well_formed a" "well_formed other"
    and "rows other = 0 \<or> cols a \<le> rows other"
    and "\<forall>i\<in>set is. i < rows a"
    and "cols result = cols other" "length (coeffs result) = rows a * cols other"
  shows "times_i_loop a other is result =
     Inr (result\<lparr>coeffs :=
        fold (\<lambda>i cs. fold (\<lambda>j cs. cs[i * cols other + j := dot_product a other i j])
                        [0..<cols other] cs) is (coeffs result)\<rparr>)"
  using assms(4-)
proof (induction "is" arbitrary: result)
  case Nil
  then show ?case by simp
next
  case (Cons i "is")
  have i: "i < rows a" using Cons.prems(1) by simp
  let ?r = "result\<lparr>coeffs :=
        fold (\<lambda>j cs. cs[i * cols other + j := dot_product a other i j])
          [0..<cols other] (coeffs result)\<rparr>"
  have j: "times_j_loop a other i [0..<cols other] result = Inr ?r"
    using Cons.prems by (intro times_j_loop_fold [OF assms(1,2,3) i]) simp_all
  have "times_i_loop a other (i # is) result = times_i_loop a other is ?r"
    by (simp add: j)
  also have "\<dots> = Inr (?r\<lparr>coeffs :=
        fold (\<lambda>i cs. fold (\<lambda>j cs. cs[i * cols other + j := dot_product a other i j])
                        [0..<cols other] cs) is (coeffs ?r)\<rparr>)"
    using Cons.prems by (intro Cons.IH) (simp_all add: fold_update_length)
  finally show ?case by simp
qed

lemma times_i_loop_no_columns:
  "cols other = 0 \<Longrightarrow> times_i_loop a other is result = Inr result"
  by (induction "is") simp_all

lemma fold_skip: "fold (\<lambda>i cs. cs) is cs = cs"
  by (induction "is") simp_all

lemma small_product:
  fixes r c :: nat
  assumes "r < 2 ^ 31" "c < 2 ^ 31"
  shows "(r * c) mod 2 ^ 64 = r * c"
proof -
  have "r * c \<le> 2 ^ 31 * 2 ^ 31" using assms by (intro mult_mono) simp_all
  then have "r * c < 2 ^ 64" by simp
  then show ?thesis by simp
qed

lemma lj_times_result:
  assumes "well_formed a" "well_formed other"
    and "rows a = 0 \<or> cols other = 0 \<or> rows other = 0 \<or> cols a \<le> rows other"
  shows "lj_times a other =
     Inr \<lparr>coeffs = fold (\<lambda>i cs. fold (\<lambda>j cs. cs[i * cols other + j := dot_product a other i j])
                        [0..<cols other] cs) [0..<rows a]
                     (replicate (rows a * cols other) \<lparr>numerator = 0, denominator = 0\<rparr>),
          c_count = c_count a * c_count other, rows = rows a, cols = cols other\<rparr>"
proof -
  have sp: "(rows a * cols other) mod 2 ^ 64 = rows a * cols other"
    using assms(1,2) by (intro small_product) (simp_all add: well_formed_def)
  have R0: "LoadJacobian_of (rows a) (cols other) (c_count a * c_count other) =
      \<lparr>coeffs = replicate (rows a * cols other) \<lparr>numerator = 0, denominator = 0\<rparr>,
       c_count = c_count a * c_count other, rows = rows a, cols = cols other\<rparr>"
    by (simp only: LoadJacobian_of_def sp)
  show ?thesis
  proof (cases "rows a = 0")
    case True
    show ?thesis unfolding lj_times_def R0 using True by simp
  next
    case r: False
    show ?thesis
    proof (cases "cols other = 0")
      case True
      show ?thesis unfolding lj_times_def R0 using True by (simp add: times_i_loop_no_columns fold_skip)
    next
      case False
      then have 3: "rows other = 0 \<or> cols a \<le> rows other" using r assms(3) by simp
      show ?thesis
        unfolding lj_times_def R0
        by (subst times_i_loop_fold [OF assms(1,2) 3]) simp_all
    qed
  qed
qed

lemma dot_product_poisoned:
  assumes "k < cols a"
    and "\<not> exists (coeff_at a i k) \<or> \<not> exists (coeff_at other k j)"
    and "\<not> rat_eq_int (coeff_at a i k) 0"
    and "\<not> rat_eq_int (coeff_at other k j) 0"
  shows "dot_product a other i j = \<lparr>numerator = 0, denominator = 0\<rparr>"
proof -
  let ?g = "\<lambda>k. rat_times (coeff_at a i k) (coeff_at other k j)"
  have split: "[0..<cols a] = [0..<k] @ k # [Suc k..<cols a]"
    using assms(1) by (metis le_add1 le_add_same_cancel1 less_imp_add_positive upt_add_eq_append upt_conv_Cons)
  have d: "denominator (?g k) = 0" using assms(2-4) by (rule rat_times_undefined)
  have "rat_plus_eq acc (?g k) = \<lparr>numerator = 0, denominator = 0\<rparr>" for acc
    using d by (simp add: rat_plus_eq_def)
  then show ?thesis
    by (simp add: dot_product_def split fold_rat_plus_eq_undefined)
qed

lemma lj_times_out_of_range:
  assumes "well_formed a" "well_formed other"
    and "0 < rows a" "0 < cols other" "0 < rows other" "rows other < cols a"
  shows "lj_times a other = Inl OutOfRange"
proof -
  let ?R0 = "LoadJacobian_of (rows a) (cols other) (c_count a * c_count other)"
  have sp: "(rows a * cols other) mod 2 ^ 64 = rows a * cols other"
    using assms(1,2) by (intro small_product) (simp_all add: well_formed_def)
  have R0: "?R0 =
      \<lparr>coeffs = replicate (rows a * cols other) \<lparr>numerator = 0, denominator = 0\<rparr>,
       c_count = c_count a * c_count other, rows = rows a, cols = cols other\<rparr>"
    by (simp only: LoadJacobian_of_def sp)
  have len0: "length (coeffs ?R0) = rows a * cols other" "cols ?R0 = cols other"
    by (simp_all add: R0)
  have pos: "0 < rows a * cols other" using assms(3,4) by simp
  have b: "(0::nat) < 2 ^ 31" "(0::nat) < 2 ^ 31" "cols other < 2 ^ 31"
    using assms(2) by (simp_all add: well_formed_def)
  have ci: "cell_index (cols other) (to_int 0) (to_int 0) = 0"
    using cell_index_small [OF b] by simp
  let ?R1 = "?R0\<lparr>coeffs := (coeffs ?R0)[0 := OptionalRational_of 0 1]\<rparr>"
  have a1: "lj_assign ?R0 (to_int 0) (to_int 0) (OptionalRational_of 0 1) = Inr ?R1"
    using pos len0 ci by (simp add: lj_assign_def)
  have rng: "\<forall>k\<in>set [0..<rows other]. lj_at a (to_int 0) (to_int k) = Inr (coeff_at a 0 k) \<and>
                      lj_at other (to_int k) (to_int 0) = Inr (coeff_at other k 0)"
    using assms by (auto intro: lj_at_in_range)
  have ci1: "cell_index (cols ?R1) (to_int 0) (to_int 0) = 0" using ci len0 by simp
  have idx1: "0 < length (coeffs ?R1)" using pos len0 by simp
  have first: "\<exists>r. times_k_loop a other 0 0 [0..<rows other] ?R1 = Inr r"
    unfolding times_k_loop_fold [OF rng ci1 idx1] by simp
  have split: "[0..<cols a] = [0..<rows other] @ rows other # [Suc (rows other)..<cols a]"
    using assms(6) by (metis le_add1 le_add_same_cancel1 less_imp_add_positive upt_add_eq_append upt_conv_Cons)
  have past: "lj_at other (to_int (rows other)) (to_int 0) = Inl OutOfRange"
    using assms(2,5,4,4) by (rule lj_at_past_the_end)
  have here: "lj_at a (to_int 0) (to_int (rows other)) = Inr (coeff_at a 0 (rows other))"
    using assms(1,3,6) by (rule lj_at_in_range)
  have k: "times_k_loop a other 0 0 [0..<cols a] ?R1 = Inl OutOfRange"
    using first by (auto simp: split times_k_loop_append past here)
  have iseq: "[0..<rows a] = 0 # [1..<rows a]" using assms(3) by (simp add: upt_rec)
  have jseq: "[0..<cols other] = 0 # [1..<cols other]" using assms(4) by (simp add: upt_rec)
  have "times_j_loop a other 0 [0..<cols other] ?R0 = Inl OutOfRange"
    unfolding jseq by (simp add: a1 k)
  then show ?thesis
    unfolding lj_times_def iseq by simp
qed

text \<open>
  C4 (as amended). The composition \<open>A * B\<close> makes no check of \<open>A.cols == B.rows\<close>, and for no
  pair of matrices does it abort with a diagnostic. For two matrices whose dimensions are
  below \<open>2^31\<close> and whose coefficient vectors have \<open>rows * cols\<close> entries:
  (i) when \<open>A.cols \<le> B.rows\<close>, or \<open>B.rows = 0\<close>, or the result has no cell (\<open>A.rows = 0\<close> or
  \<open>B.cols = 0\<close>), the composition returns a \<open>rows_A \<times> cols_B\<close> matrix whose count is
  \<open>A.count * B.count\<close> (a 64-bit product) and whose \<open>(i, j)\<close> cell is the OptionalRational
  dot product over \<open>k < A.cols\<close> of \<open>A(i, k)\<close> and \<open>B(k, j)\<close> as the \<open>const\<close> \<open>operator()\<close> returns
  them (\<open>(0, 1)\<close> everywhere for a matrix with no rows or no columns), accumulated by \<open>+=\<close>
  from \<open>(0, 1)\<close>; an undefined \<open>A(i, k)\<close> or \<open>B(k, j)\<close> makes that cell undefined unless one of
  the two factors is equal to zero (the product short-circuits on zero);
  (ii) when \<open>0 < B.rows < A.cols\<close> and the result has a cell (\<open>0 < A.rows\<close>, \<open>0 < B.cols\<close>), the
  composition reads \<open>B\<close> past the end of its coefficient vector.
\<close>

theorem lj_times_amended:
  "(\<forall>msg. lj_times a other \<noteq> Inl (InternalError msg)) \<and>
   (well_formed a \<and> well_formed other \<and>
    (cols a \<le> rows other \<or> rows other = 0 \<or> rows a = 0 \<or> cols other = 0) \<longrightarrow>
    (\<exists>r. lj_times a other = Inr r \<and>
       rows r = rows a \<and> cols r = cols other \<and> well_formed r \<and>
       c_count r = c_count a * c_count other \<and>
       (\<forall>i<rows a. \<forall>j<cols other.
          coeffs r ! (i * cols other + j) = dot_product a other i j \<and>
          (\<forall>k<cols a.
             (\<not> exists (coeff_at a i k) \<or> \<not> exists (coeff_at other k j)) \<and>
             \<not> rat_eq_int (coeff_at a i k) 0 \<and>
             \<not> rat_eq_int (coeff_at other k j) 0 \<longrightarrow>
             \<not> exists (coeffs r ! (i * cols other + j)))))) \<and>
   (well_formed a \<and> well_formed other \<and>
    0 < rows other \<and> rows other < cols a \<and> 0 < rows a \<and> 0 < cols other \<longrightarrow>
    lj_times a other = Inl OutOfRange)"
proof (intro conjI impI allI)
  fix msg
  show "lj_times a other \<noteq> Inl (InternalError msg)"
    using lj_times_error [of a other "InternalError msg"] by auto
next
  assume h: "well_formed a \<and> well_formed other \<and>
    (cols a \<le> rows other \<or> rows other = 0 \<or> rows a = 0 \<or> cols other = 0)"
  let ?cs = "fold (\<lambda>i cs. fold (\<lambda>j cs. cs[i * cols other + j := dot_product a other i j])
                        [0..<cols other] cs) [0..<rows a]
                     (replicate (rows a * cols other) \<lparr>numerator = 0, denominator = 0\<rparr>)"
  let ?r = "\<lparr>coeffs = ?cs, c_count = c_count a * c_count other, rows = rows a, cols = cols other\<rparr>"
  have r: "lj_times a other = Inr ?r" using h by (intro lj_times_result) auto
  have len: "length ?cs = rows a * cols other" by (simp add: rows_fold_length)
  have wf: "well_formed ?r" using h by (simp add: well_formed_def len)
  have cell: "?cs ! (i * cols other + j) = dot_product a other i j"
    if "i < rows a" "j < cols other" for i j
    using that by (intro rows_fold_hit) (simp_all add: cell_index_bound)
  have poison: "\<not> exists (?cs ! (i * cols other + j))"
    if "i < rows a" "j < cols other" "k < cols a"
      "(\<not> exists (coeff_at a i k) \<or> \<not> exists (coeff_at other k j)) \<and>
           \<not> rat_eq_int (coeff_at a i k) 0 \<and>
           \<not> rat_eq_int (coeff_at other k j) 0" for i j k
    using that dot_product_poisoned [of k a i other j] by (simp add: cell exists_def)
  show "\<exists>r. lj_times a other = Inr r \<and>
       rows r = rows a \<and> cols r = cols other \<and> well_formed r \<and>
       c_count r = c_count a * c_count other \<and>
       (\<forall>i<rows a. \<forall>j<cols other.
          coeffs r ! (i * cols other + j) = dot_product a other i j \<and>
          (\<forall>k<cols a.
             (\<not> exists (coeff_at a i k) \<or> \<not> exists (coeff_at other k j)) \<and>
             \<not> rat_eq_int (coeff_at a i k) 0 \<and>
             \<not> rat_eq_int (coeff_at other k j) 0 \<longrightarrow>
             \<not> exists (coeffs r ! (i * cols other + j))))"
    apply (rule exI [of _ ?r])
    apply (intro conjI allI impI)
    apply (rule r)
    apply simp
    apply simp
    apply (rule wf)
    apply simp
    apply (simp only: LoadJacobian.simps cell)
    apply (simp only: LoadJacobian.simps)
    apply (rule poison; assumption)
    done
next
  assume "well_formed a \<and> well_formed other \<and>
    0 < rows other \<and> rows other < cols a \<and> 0 < rows a \<and> 0 < cols other"
  then show "lj_times a other = Inl OutOfRange"
    by (intro lj_times_out_of_range) simp_all
qed

lemma upt_0_2: "[0..<2] = [0, Suc 0]"
  by (simp add: numeral_2_eq_2)

lemma to_int_0: "to_int 0 = 0"
  by (simp add: to_int_def)

lemma to_int_1: "to_int (Suc 0) = 1"
  by (simp add: to_int_def)

text \<open>A \<open>1 \<times> 2\<close> row \<open>(1/1, undefined)\<close> composed with the \<open>2 \<times> 1\<close> column \<open>(3/1, 5/1)\<close>:
  the only cell is undefined. The same row composed with the \<open>1 \<times> 1\<close> matrix \<open>(3/1)\<close> reads
  past the end of the latter.\<close>

theorem lj_times_amended_witness:
  "well_formed \<lparr>coeffs = [\<lparr>numerator = 1, denominator = 1\<rparr>, \<lparr>numerator = 0, denominator = 0\<rparr>],
                c_count = 2, rows = 1, cols = 2\<rparr> \<and>
   well_formed \<lparr>coeffs = [\<lparr>numerator = 3, denominator = 1\<rparr>, \<lparr>numerator = 5, denominator = 1\<rparr>],
                c_count = 3, rows = 2, cols = 1\<rparr> \<and>
   well_formed \<lparr>coeffs = [\<lparr>numerator = 3, denominator = 1\<rparr>], c_count = 3, rows = 1, cols = 1\<rparr> \<and>
   lj_times \<lparr>coeffs = [\<lparr>numerator = 1, denominator = 1\<rparr>, \<lparr>numerator = 0, denominator = 0\<rparr>],
             c_count = 2, rows = 1, cols = 2\<rparr>
            \<lparr>coeffs = [\<lparr>numerator = 3, denominator = 1\<rparr>, \<lparr>numerator = 5, denominator = 1\<rparr>],
             c_count = 3, rows = 2, cols = 1\<rparr>
     = Inr \<lparr>coeffs = [\<lparr>numerator = 0, denominator = 0\<rparr>], c_count = 6, rows = 1, cols = 1\<rparr> \<and>
   lj_times \<lparr>coeffs = [\<lparr>numerator = 1, denominator = 1\<rparr>, \<lparr>numerator = 0, denominator = 0\<rparr>],
             c_count = 2, rows = 1, cols = 2\<rparr>
            \<lparr>coeffs = [\<lparr>numerator = 3, denominator = 1\<rparr>], c_count = 3, rows = 1, cols = 1\<rparr>
     = Inl OutOfRange"
  using lj_times_amended [of
      "\<lparr>coeffs = [\<lparr>numerator = 1, denominator = 1\<rparr>, \<lparr>numerator = 0, denominator = 0\<rparr>],
             c_count = 2, rows = 1, cols = 2\<rparr>"
      "\<lparr>coeffs = [\<lparr>numerator = 3, denominator = 1\<rparr>, \<lparr>numerator = 5, denominator = 1\<rparr>],
             c_count = 3, rows = 2, cols = 1\<rparr>"]
    lj_times_amended [of
      "\<lparr>coeffs = [\<lparr>numerator = 1, denominator = 1\<rparr>, \<lparr>numerator = 0, denominator = 0\<rparr>],
             c_count = 2, rows = 1, cols = 2\<rparr>"
      "\<lparr>coeffs = [\<lparr>numerator = 3, denominator = 1\<rparr>], c_count = 3, rows = 1, cols = 1\<rparr>"]
  by (simp add: well_formed_def lj_times_def LoadJacobian_of_def lj_at_def lj_ref_def lj_assign_def
      cell_index_def to_int_0 to_int_1
      OptionalRational_of_def rat_plus_eq_def rat_times_def rat_eq_int_def exists_def
      upt_0_2)

text \<open>C4 as stated fails: a \<open>1 \<times> 1\<close> matrix composed with a \<open>2 \<times> 1\<close> matrix returns a
  result, no error is raised.\<close>

theorem lj_times_counterexample:
  "cols \<lparr>coeffs = [\<lparr>numerator = 1, denominator = 1\<rparr>], c_count = 2, rows = 1, cols = 1\<rparr>
     \<noteq> rows \<lparr>coeffs = [\<lparr>numerator = 3, denominator = 1\<rparr>, \<lparr>numerator = 5, denominator = 1\<rparr>],
              c_count = 3, rows = 2, cols = 1\<rparr> \<and>
   lj_times \<lparr>coeffs = [\<lparr>numerator = 1, denominator = 1\<rparr>], c_count = 2, rows = 1, cols = 1\<rparr>
            \<lparr>coeffs = [\<lparr>numerator = 3, denominator = 1\<rparr>, \<lparr>numerator = 5, denominator = 1\<rparr>],
             c_count = 3, rows = 2, cols = 1\<rparr>
     = Inr \<lparr>coeffs = [\<lparr>numerator = 3, denominator = 1\<rparr>], c_count = 6, rows = 1, cols = 1\<rparr>"
  by (simp add: lj_times_def LoadJacobian_of_def lj_at_def lj_ref_def lj_assign_def
      cell_index_def to_int_0 to_int_1
      OptionalRational_of_def rat_plus_eq_def rat_times_def rat_eq_int_def exists_def)

section \<open>Properties of Span\<close>

lemma sint64_inject: "sint (a::64 word) = sint b \<Longrightarrow> a = b"
  by (simp add: signed_word_eqI)

lemma std_min_sint: "sint (std_min a b) = min (sint a) (sint b)"
  by (simp add: std_min_def word_sless_alt min_def)

lemma std_max_sint: "sint (std_max a b) = max (sint a) (sint b)"
  by (simp add: std_max_def word_sless_alt max_def)

lemma std_min_commute: "std_min a b = std_min b a"
  by (rule sint64_inject) (simp add: std_min_sint min.commute)

lemma std_min_assoc: "std_min (std_min a b) c = std_min a (std_min b c)"
  by (rule sint64_inject) (simp add: std_min_sint min.assoc)

lemma std_max_commute: "std_max a b = std_max b a"
  by (rule sint64_inject) (simp add: std_max_sint max.commute)

lemma std_max_assoc: "std_max (std_max a b) c = std_max a (std_max b c)"
  by (rule sint64_inject) (simp add: std_max_sint max.assoc)

lemma sint_INT64_MAX: "sint INT64_MAX = 2 ^ 63 - 1"
  by (simp add: INT64_MAX_def)

lemma sint_INT64_MIN: "sint INT64_MIN = - (2 ^ 63)"
  by (simp add: INT64_MIN_def)

lemma std_min_INT64_MAX: "std_min a INT64_MAX = a"
proof -
  have "sint a < 2 ^ 63" using sint_lt [of a] by simp
  then show ?thesis by (simp add: std_min_def word_sless_alt sint_INT64_MAX)
qed

lemma std_max_INT64_MIN: "std_max a INT64_MIN = a"
proof -
  have "- (2 ^ 63) \<le> sint a" using sint_ge [of a] by simp
  then show ?thesis by (simp add: std_max_def word_sless_alt sint_INT64_MIN)
qed

text \<open>
  C8. For every Span \<open>s\<close>, the union with \<open>empty_span\<close> (min = INT64_MAX, max = INT64_MIN,
  constant extent true) leaves \<open>s\<close> unchanged, and \<open>union_with\<close> is commutative and
  associative: the resulting triple does not depend on the order or the grouping of the
  operands.
\<close>

theorem union_with_empty_commute_assoc:
  "union_with s empty_span = s \<and>
   union_with a b = union_with b a \<and>
   union_with (union_with a b) c = union_with a (union_with b c)"
proof (intro conjI)
  show "union_with s empty_span = s"
    by (simp add: union_with_def empty_span_def std_min_INT64_MAX std_max_INT64_MIN)
  show "union_with a b = union_with b a"
    by (simp add: union_with_def std_min_commute [of "span_min a"]
        std_max_commute [of "span_max a"] conj_commute)
  show "union_with (union_with a b) c = union_with a (union_with b c)"
    by (simp add: union_with_def std_min_assoc std_max_assoc)
qed

end
